theory Spec2Isabelle
  imports Complex_Main "HOL-Library.Word"
begin

section \<open>AliAnalysisTaskJetSpectrum::GetClosestJets\<close>

text \<open>
  The matcher relates the generated jets to the reconstructed jets. It works on two
  caller-owned jet arrays with their counts (passed by reference), two caller-owned index
  arrays and a local flag matrix. All of them are kept in one record, so that every write
  of the source is an update of a field and the frame of the call can be stated.

  An array is the function from its offsets to its contents. The capacity \<open>kMaxJets\<close>
  is declared in the class header; it is a parameter of the model. The jet class
  \<open>AliAODJet\<close> belongs to the framework: a jet is kept with the three quantities the
  routine prints, and the distance \<open>genJets[ig].DeltaR(&recJets[ir])\<close> is a parameter
  \<open>DeltaR\<close> whose \<open>Double_t\<close> result is a real number.

  The running minimum \<open>dist\<close> and the constant \<open>maxDist\<close> have type \<open>Float_t\<close>, the
  distance \<open>dR\<close> has type \<open>Double_t\<close>. The comparison \<open>dR < dist\<close> is made in double
  precision, the assignment \<open>dist = dR\<close> narrows to single precision. The narrowing is
  the parameter \<open>toFloat\<close>. The diagnostic output under \<open>iDebug > 1\<close> writes no state
  and is left out.
\<close>

record AliAODJet =
  Pt :: real
  Eta :: real
  Phi :: real

record frame =
  genJets :: "nat \<Rightarrow> AliAODJet"
  nGenJets :: int
  recJets :: "nat \<Rightarrow> AliAODJet"
  nRecJets :: int
  iGenIndex :: "nat \<Rightarrow> int"
  iRecIndex :: "nat \<Rightarrow> int"
  iFlag :: "nat \<Rightarrow> nat \<Rightarrow> int"

datatype error = OutOfBounds | NullPointer

type_synonym metric = "AliAODJet \<Rightarrow> AliAODJet \<Rightarrow> real"

text \<open>\<open>for(int j = 0;j < kMaxJets;++j)iFlag[i][j] = 0;\<close>\<close>

definition clearFlag :: "nat \<Rightarrow> nat \<Rightarrow> frame \<Rightarrow> frame" where
  "clearFlag i j s = s\<lparr>iFlag := (iFlag s)(i := (iFlag s i)(j := 0))\<rparr>"

text \<open>The body of the first loop, for one \<open>i\<close>.\<close>

definition resetSlot :: "nat \<Rightarrow> nat \<Rightarrow> frame \<Rightarrow> frame" where
  "resetSlot kMaxJets i s =
     fold (clearFlag i) [0..<kMaxJets]
       (s\<lparr>iRecIndex := (iRecIndex s)(i := -1), iGenIndex := (iGenIndex s)(i := -1)\<rparr>)"

definition resetAll :: "nat \<Rightarrow> frame \<Rightarrow> frame" where
  "resetAll kMaxJets s = fold (resetSlot kMaxJets) [0..<kMaxJets] s"

text \<open>
  The inner loop of the first direction, for one pair \<open>(ig, ir)\<close>: the frame and the
  running minimum \<open>dist\<close>.
\<close>

definition scanRec :: "metric \<Rightarrow> (real \<Rightarrow> real) \<Rightarrow> nat \<Rightarrow> nat \<Rightarrow> frame \<times> real \<Rightarrow> frame \<times> real" where
  "scanRec DeltaR toFloat ig ir p =
     (let s = fst p; dist = snd p; dR = DeltaR (genJets s ig) (recJets s ir)
      in if dR < dist
         then (s\<lparr>iRecIndex := (iRecIndex s)(ig := int ir)\<rparr>, toFloat dR)
         else (s, dist))"

text \<open>\<open>iFlag[a][b] += v\<close>\<close>

definition addFlag :: "nat \<Rightarrow> nat \<Rightarrow> int \<Rightarrow> frame \<Rightarrow> frame" where
  "addFlag a b v s = s\<lparr>iFlag := (iFlag s)(a := (iFlag s a)(b := iFlag s a b + v))\<rparr>"

definition maxDist :: "(real \<Rightarrow> real) \<Rightarrow> real" where
  "maxDist toFloat = toFloat (14 / 10)"

definition closestRec :: "metric \<Rightarrow> (real \<Rightarrow> real) \<Rightarrow> nat \<Rightarrow> frame \<Rightarrow> frame" where
  "closestRec DeltaR toFloat ig s =
     (let s1 = fst (fold (scanRec DeltaR toFloat ig) [0..<nat (nRecJets s)] (s, maxDist toFloat))
      in if iRecIndex s1 ig \<ge> 0 then addFlag ig (nat (iRecIndex s1 ig)) 1 s1 else s1)"

definition forwardPass :: "metric \<Rightarrow> (real \<Rightarrow> real) \<Rightarrow> frame \<Rightarrow> frame" where
  "forwardPass DeltaR toFloat s = fold (closestRec DeltaR toFloat) [0..<nat (nGenJets s)] s"

text \<open>The other way around.\<close>

definition scanGen :: "metric \<Rightarrow> (real \<Rightarrow> real) \<Rightarrow> nat \<Rightarrow> nat \<Rightarrow> frame \<times> real \<Rightarrow> frame \<times> real" where
  "scanGen DeltaR toFloat ir ig p =
     (let s = fst p; dist = snd p; dR = DeltaR (genJets s ig) (recJets s ir)
      in if dR < dist
         then (s\<lparr>iGenIndex := (iGenIndex s)(ir := int ig)\<rparr>, toFloat dR)
         else (s, dist))"

definition closestGen :: "metric \<Rightarrow> (real \<Rightarrow> real) \<Rightarrow> nat \<Rightarrow> frame \<Rightarrow> frame" where
  "closestGen DeltaR toFloat ir s =
     (let s1 = fst (fold (scanGen DeltaR toFloat ir) [0..<nat (nGenJets s)] (s, maxDist toFloat))
      in if iGenIndex s1 ir \<ge> 0 then addFlag (nat (iGenIndex s1 ir)) ir 2 s1 else s1)"

definition backwardPass :: "metric \<Rightarrow> (real \<Rightarrow> real) \<Rightarrow> frame \<Rightarrow> frame" where
  "backwardPass DeltaR toFloat s = fold (closestGen DeltaR toFloat) [0..<nat (nRecJets s)] s"

text \<open>The check for "true" correlations, for one cell of the matrix.\<close>

definition checkCell :: "nat \<Rightarrow> nat \<Rightarrow> frame \<Rightarrow> frame" where
  "checkCell ig ir s =
     (if iFlag s ig ir = 3
      then s\<lparr>iGenIndex := (iGenIndex s)(ir := int ig), iRecIndex := (iRecIndex s)(ig := int ir)\<rparr>
      else s\<lparr>iRecIndex := (iRecIndex s)(ig := -1), iGenIndex := (iGenIndex s)(ir := -1)\<rparr>)"

definition checkRow :: "nat \<Rightarrow> frame \<Rightarrow> frame" where
  "checkRow ig s = fold (checkCell ig) [0..<nat (nRecJets s)] s"

definition checkPass :: "frame \<Rightarrow> frame" where
  "checkPass s = fold checkRow [0..<nat (nGenJets s)] s"

text \<open>
  The routine. After the two early returns the loops index the arrays with every
  \<open>ig < nGenJets\<close> and every \<open>ir < nRecJets\<close>; the arrays have \<open>kMaxJets\<close> elements, so a
  count above the capacity is an access out of bounds, which C++ leaves undefined. The
  model returns \<open>OutOfBounds\<close> there. The caller clamps both counts to \<open>kMaxJets\<close>.
\<close>

definition GetClosestJets :: "nat \<Rightarrow> metric \<Rightarrow> (real \<Rightarrow> real) \<Rightarrow> frame \<Rightarrow> error + frame" where
  "GetClosestJets kMaxJets DeltaR toFloat s =
     (let s0 = resetAll kMaxJets s
      in if nRecJets s0 = 0 then Inr s0
         else if nGenJets s0 = 0 then Inr s0
         else if int kMaxJets < nGenJets s0 \<or> int kMaxJets < nRecJets s0 then Inl OutOfBounds
         else Inr (checkPass (backwardPass DeltaR toFloat (forwardPass DeltaR toFloat s0))))"

subsection \<open>The narrowing to \<open>Float_t\<close>\<close>

text \<open>
  \<open>Float_t\<close> is the IEEE 754 single-precision format: 24 significant bits, the
  smallest normal exponent \<open>-126\<close>, conversion from double precision by rounding to
  nearest, ties to even. \<open>binary32\<close> is that conversion on the reals, for arguments
  below \<open>2\<^sup>1\<^sup>2\<^sup>8\<close> in magnitude (the routine narrows only distances below
  \<open>maxDist\<close>). It is the instance of the parameter \<open>toFloat\<close> at which the model is
  evaluated.
\<close>

definition roundEven :: "real \<Rightarrow> int" where
  "roundEven x =
     (let f = \<lfloor>x\<rfloor>; r = x - of_int f
      in if r < 1 / 2 then f else if 1 / 2 < r then f + 1 else if even f then f else f + 1)"

definition binary32 :: "real \<Rightarrow> real" where
  "binary32 x =
     (if x = 0 then 0
      else let e = max \<lfloor>log 2 \<bar>x\<bar>\<rfloor> (- 126); u = 2 powr (of_int e - 23)
           in of_int (roundEven (x / u)) * u)"

text \<open>
  The exponent of the binade a number lies in, not below the smallest normal exponent:
  the exponent \<open>binary32\<close> rounds at.
\<close>

definition binade :: "real \<Rightarrow> int" where
  "binade x = max \<lfloor>log 2 \<bar>x\<bar>\<rfloor> (- 126)"

subsection \<open>The distance of two jets\<close>

text \<open>
  Modelled from the spec: \<open>AliAODJet::DeltaR\<close>, which is framework code. The
  specification describes the angular distance as the Euclidean combination of the
  pseudorapidity difference and the azimuthal-angle difference, the azimuth being
  wrapped; the difference of the azimuths is folded back by one turn when it leaves
  \<open>[-\<pi>, \<pi>]\<close>. The theorems hold for every distance; this one is used at the concrete
  inputs.
\<close>

definition angularDistance :: metric where
  "angularDistance a b =
     (let dPhi = Phi a - Phi b;
          dPhi = (if dPhi > pi then dPhi - 2 * pi else dPhi);
          dPhi = (if dPhi < - pi then dPhi + 2 * pi else dPhi);
          dEta = Eta a - Eta b
      in sqrt (dPhi * dPhi + dEta * dEta))"

subsection \<open>One scan on its own\<close>

text \<open>
  Both inner loops keep an index and a running minimum and differ only in the array they
  write. \<open>keep\<close> is one iteration on that pair, \<open>best\<close> the index left by a scan of
  \<open>n\<close> candidates with distances \<open>d\<close>, started at index \<open>i0\<close>. \<open>recChoice\<close> and
  \<open>genChoice\<close> are the scans of the two directions in a frame, and \<open>matchFlags\<close> is
  the flag matrix as the two direction passes leave it.
\<close>

definition keep :: "(real \<Rightarrow> real) \<Rightarrow> (nat \<Rightarrow> real) \<Rightarrow> nat \<Rightarrow> int \<times> real \<Rightarrow> int \<times> real" where
  "keep toFloat d j p = (if d j < snd p then (int j, toFloat (d j)) else p)"

definition best :: "(real \<Rightarrow> real) \<Rightarrow> (nat \<Rightarrow> real) \<Rightarrow> nat \<Rightarrow> int \<Rightarrow> int" where
  "best toFloat d n i0 = fst (fold (keep toFloat d) [0..<n] (i0, maxDist toFloat))"

definition recChoice :: "metric \<Rightarrow> (real \<Rightarrow> real) \<Rightarrow> frame \<Rightarrow> nat \<Rightarrow> int" where
  "recChoice DeltaR toFloat s ig =
     best toFloat (\<lambda>ir. DeltaR (genJets s ig) (recJets s ir)) (nat (nRecJets s)) (iRecIndex s ig)"

definition genChoice :: "metric \<Rightarrow> (real \<Rightarrow> real) \<Rightarrow> frame \<Rightarrow> nat \<Rightarrow> int" where
  "genChoice DeltaR toFloat s ir =
     best toFloat (\<lambda>ig. DeltaR (genJets s ig) (recJets s ir)) (nat (nGenJets s)) (iGenIndex s ir)"

definition matchFlags :: "nat \<Rightarrow> metric \<Rightarrow> (real \<Rightarrow> real) \<Rightarrow> frame \<Rightarrow> nat \<Rightarrow> nat \<Rightarrow> int" where
  "matchFlags kMaxJets DeltaR toFloat s =
     iFlag (backwardPass DeltaR toFloat (forwardPass DeltaR toFloat (resetAll kMaxJets s)))"





subsection \<open>Concrete calls\<close>

text \<open>
  A call as \<open>UserExec\<close> makes it: the jets of the event in the first slots of the two
  arrays, default jets behind them, the counts, and index arrays and a flag matrix with
  arbitrary prior contents.
\<close>

definition mkJet :: "real \<Rightarrow> real \<Rightarrow> real \<Rightarrow> AliAODJet" where
  "mkJet eta phi pt = \<lparr>Pt = pt, Eta = eta, Phi = phi\<rparr>"

definition callFrame :: "AliAODJet list \<Rightarrow> AliAODJet list \<Rightarrow> frame" where
  "callFrame gs rs =
     \<lparr>genJets = (\<lambda>i. if i < length gs then gs ! i else mkJet 0 0 0),
      nGenJets = int (length gs),
      recJets = (\<lambda>i. if i < length rs then rs ! i else mkJet 0 0 0),
      nRecJets = int (length rs),
      iGenIndex = (\<lambda>i. 7),
      iRecIndex = (\<lambda>i. 7),
      iFlag = (\<lambda>i j. 7)\<rparr>"

text \<open>
  The jets of the scenarios of the specification: two jets next to each other at the
  origin of the \<open>(\<eta>, \<phi>)\<close> plane and one jet away from both, as generated or as
  reconstructed jets; an event without reconstructed jets; and an event of three
  generated and three reconstructed jets on a line in \<open>\<eta>\<close>, in which the first two
  generated jets choose the reconstructed jets crosswise.
\<close>

definition jetG0 :: AliAODJet where
  "jetG0 = mkJet 0 0 20"

definition jetG1 :: AliAODJet where
  "jetG1 = mkJet (5 / 10) (5 / 10) 15"

definition jetR0 :: AliAODJet where
  "jetR0 = mkJet (2 / 100) (1 / 100) (195 / 10)"

definition jetR1 :: AliAODJet where
  "jetR1 = mkJet (5 / 10) (5 / 10) 15"

definition twoGenOneRec :: frame where
  "twoGenOneRec = callFrame [jetG0, jetG1] [jetR0]"

definition oneGenTwoRec :: frame where
  "oneGenTwoRec = callFrame [jetG0] [jetR0, jetR1]"

definition emptyRec :: frame where
  "emptyRec = callFrame [jetG0] []"

definition crossed :: frame where
  "crossed = callFrame [mkJet 0 0 10, mkJet (21 / 16) 0 10, mkJet (8 / 16) 0 10]
                       [mkJet (14 / 16) 0 10, mkJet (5 / 16) 0 10, mkJet (9 / 16) 0 10]"

text \<open>
  A crossing in which a third generated jet sits next to the first reconstructed jet:
  three generated jets at \<open>\<eta> = 0, 1.5, 0.8125\<close> and two reconstructed jets at
  \<open>\<eta> = 0.875, 0.5\<close>.
\<close>

definition crossedThird :: frame where
  "crossedThird = callFrame [mkJet 0 0 10, mkJet (24 / 16) 0 10, mkJet (13 / 16) 0 10]
                            [mkJet (14 / 16) 0 10, mkJet (8 / 16) 0 10]"



section \<open>AliHFAODMCParticleContainer\<close>

text \<open>
  A Monte Carlo particle with the attributes the container reads, and the container with
  its own three members, the generator index of its base class and the particle array.
  \<open>fClArray->At(i)\<close> is the lookup \<open>fClArray c i\<close>; it gives no particle for an index
  outside the array or an empty slot, and the source dereferences the result unchecked.
  The origin and decay-channel checks, the kinematic cuts, the base-class acceptance
  and the two rejection codes belong to other classes; they are collected in \<open>host\<close>.
  The PDG codes are \<open>Int_t\<close>, 32-bit words read as signed numbers.
\<close>

record AliAODMCParticle =
  PdgCode :: "32 word"
  IsPrimary :: bool
  GetMother :: int
  GetGeneratorIndex :: int

record container =
  fSpecialPDG :: "32 word"
  fRejectedOrigin :: "32 word"
  fAcceptedDecay :: "32 word"
  fGeneratorIndex :: int
  fClArray :: "int \<Rightarrow> AliAODMCParticle option"

record host =
  CheckOrigin :: "AliAODMCParticle \<Rightarrow> (int \<Rightarrow> AliAODMCParticle option) \<Rightarrow> 32 word"
  CheckDecayChannel :: "AliAODMCParticle \<Rightarrow> (int \<Rightarrow> AliAODMCParticle option) \<Rightarrow> 32 word"
  KinematicCuts :: "container \<Rightarrow> int \<Rightarrow> 32 word \<Rightarrow> bool \<times> 32 word"
  BaseAccept :: "container \<Rightarrow> int \<Rightarrow> 32 word \<Rightarrow> bool \<times> 32 word"
  kMCGeneratorCut :: "32 word"
  kHFCut :: "32 word"

text \<open>
  \<open>TMath::Abs\<close> on \<open>Int_t\<close>: the negation wraps, so the smallest number is its own
  absolute value.
\<close>

definition TMath_Abs :: "32 word \<Rightarrow> 32 word" where
  "TMath_Abs d = (if 0 \<le> sint d then d else - d)"

text \<open>
  The walk up the chain of mothers in \<open>IsSpecialPDGDaughter\<close>. A chain of mothers that
  runs in a circle never leaves the loop: the walk has no result there.
\<close>

partial_function (option) motherWalk :: "container \<Rightarrow> AliAODMCParticle \<Rightarrow> (error + bool) option" where
  "motherWalk c pm =
     (let imo = GetMother pm
      in if imo < 0 then Some (Inr False)
         else (case fClArray c imo of
                 None \<Rightarrow> Some (Inl NullPointer)
               | Some pm' \<Rightarrow>
                   if TMath_Abs (PdgCode pm') = fSpecialPDG c \<and> IsPrimary pm' then Some (Inr True)
                   else motherWalk c pm'))"

definition IsSpecialPDGDaughter :: "container \<Rightarrow> AliAODMCParticle \<Rightarrow> (error + bool) option" where
  "IsSpecialPDGDaughter c part =
     (if fSpecialPDG c = 0 then Some (Inr True) else motherWalk c part)"

text \<open>
  \<open>AcceptMCParticle(Int_t i)\<close>. The result is the returned flag together with the value
  of the local \<open>rejectionReason\<close> at the return. Inside the branch of a special particle
  the source clears \<open>isSpecialPdg\<close> after the origin and the decay-channel check; the
  branch has been entered by then, and the cleared value is not read again.
\<close>

definition AcceptMCParticle :: "host \<Rightarrow> container \<Rightarrow> int \<Rightarrow> (error + bool \<times> 32 word) option" where
  "AcceptMCParticle h c i =
     (case fClArray c i of
        None \<Rightarrow> Some (Inl NullPointer)
      | Some part \<Rightarrow>
          (let rejectionReason = 0;
               partPdgCode = TMath_Abs (PdgCode part);
               isSpecialPdg = (fSpecialPDG c \<noteq> 0 \<and> partPdgCode = fSpecialPDG c \<and> IsPrimary part)
           in if isSpecialPdg
              then (let origin = CheckOrigin h part (fClArray c);
                        isSpecialPdg = (if and origin (fRejectedOrigin c) \<noteq> 0 then False else isSpecialPdg);
                        decayChannel = CheckDecayChannel h part (fClArray c);
                        isSpecialPdg = (if and decayChannel (fAcceptedDecay c) = 0 then False else isSpecialPdg)
                    in if fGeneratorIndex c \<ge> 0 \<and> fGeneratorIndex c \<noteq> GetGeneratorIndex part
                       then Some (Inr (False, or rejectionReason (kMCGeneratorCut h)))
                       else Some (Inr (KinematicCuts h c i rejectionReason)))
              else (case IsSpecialPDGDaughter c part of
                      None \<Rightarrow> None
                    | Some (Inl e) \<Rightarrow> Some (Inl e)
                    | Some (Inr True) \<Rightarrow> Some (Inr (False, kHFCut h))
                    | Some (Inr False) \<Rightarrow> Some (Inr (BaseAccept h c i rejectionReason)))))"

text \<open>
  A container as the default constructor leaves its own members (\<open>fSpecialPDG\<close>,
  \<open>fRejectedOrigin\<close> and \<open>fAcceptedDecay\<close> all 0), with an array of two particles
  attached: a primary \<open>D\<^sup>0\<close> meson and a kaon whose mother it is. The host accepts
  everything.
\<close>

definition plainArray :: "int \<Rightarrow> AliAODMCParticle option" where
  "plainArray i =
     (if i = 0 then Some \<lparr>PdgCode = 421, IsPrimary = True, GetMother = -1, GetGeneratorIndex = 0\<rparr>
      else if i = 1 then Some \<lparr>PdgCode = -321, IsPrimary = False, GetMother = 0, GetGeneratorIndex = 0\<rparr>
      else None)"

definition plainContainer :: container where
  "plainContainer =
     \<lparr>fSpecialPDG = 0, fRejectedOrigin = 0, fAcceptedDecay = 0, fGeneratorIndex = -1,
      fClArray = plainArray\<rparr>"

definition plainHost :: host where
  "plainHost =
     \<lparr>CheckOrigin = (\<lambda>part arr. 0), CheckDecayChannel = (\<lambda>part arr. 0),
      KinematicCuts = (\<lambda>c i reason. (True, reason)), BaseAccept = (\<lambda>c i reason. (True, reason)),
      kMCGeneratorCut = 1024, kHFCut = 32\<rparr>"

section \<open>The loops of GetClosestJets in closed form\<close>

text \<open>
  Each loop is a fold over its index range. The lemmas of this section give the frame a
  loop leaves, field by field, by induction on the range.
\<close>

lemma clearFlag_fold:
  "fold (clearFlag i) xs s =
     s\<lparr>iFlag := (\<lambda>a b. if a = i \<and> b \<in> set xs then 0 else iFlag s a b)\<rparr>"
proof (induction xs arbitrary: s)
  case Nil
  show ?case by simp
next
  case (Cons x xs)
  have "fold (clearFlag i) (x # xs) s = fold (clearFlag i) xs (clearFlag i x s)" by simp
  also have "\<dots> = (clearFlag i x s)\<lparr>iFlag := (\<lambda>a b. if a = i \<and> b \<in> set xs then 0 else iFlag (clearFlag i x s) a b)\<rparr>"
    by (rule Cons.IH)
  also have "\<dots> = s\<lparr>iFlag := (\<lambda>a b. if a = i \<and> b \<in> set (x # xs) then 0 else iFlag s a b)\<rparr>"
    by (auto simp add: clearFlag_def fun_eq_iff)
  finally show ?case .
qed

lemma resetSlot_eq:
  "resetSlot K i s =
     s\<lparr>iRecIndex := (iRecIndex s)(i := -1), iGenIndex := (iGenIndex s)(i := -1),
       iFlag := (\<lambda>a b. if a = i \<and> b < K then 0 else iFlag s a b)\<rparr>"
  unfolding resetSlot_def clearFlag_fold by (rule frame.equality) (simp_all add: fun_eq_iff)

lemma resetSlot_fold:
  "fold (resetSlot K) xs s =
     s\<lparr>iRecIndex := (\<lambda>i. if i \<in> set xs then -1 else iRecIndex s i),
       iGenIndex := (\<lambda>i. if i \<in> set xs then -1 else iGenIndex s i),
       iFlag := (\<lambda>a b. if a \<in> set xs \<and> b < K then 0 else iFlag s a b)\<rparr>"
proof (induction xs arbitrary: s)
  case Nil
  show ?case by simp
next
  case (Cons x xs)
  have "fold (resetSlot K) (x # xs) s = fold (resetSlot K) xs (resetSlot K x s)" by simp
  also have "\<dots> = (resetSlot K x s)\<lparr>iRecIndex := (\<lambda>i. if i \<in> set xs then -1 else iRecIndex (resetSlot K x s) i),
       iGenIndex := (\<lambda>i. if i \<in> set xs then -1 else iGenIndex (resetSlot K x s) i),
       iFlag := (\<lambda>a b. if a \<in> set xs \<and> b < K then 0 else iFlag (resetSlot K x s) a b)\<rparr>"
    by (rule Cons.IH)
  also have "\<dots> = s\<lparr>iRecIndex := (\<lambda>i. if i \<in> set (x # xs) then -1 else iRecIndex s i),
       iGenIndex := (\<lambda>i. if i \<in> set (x # xs) then -1 else iGenIndex s i),
       iFlag := (\<lambda>a b. if a \<in> set (x # xs) \<and> b < K then 0 else iFlag s a b)\<rparr>"
    unfolding resetSlot_eq by (auto simp add: fun_eq_iff)
  finally show ?case .
qed

lemma resetAll_eq:
  "resetAll K s =
     s\<lparr>iRecIndex := (\<lambda>i. if i < K then -1 else iRecIndex s i),
       iGenIndex := (\<lambda>i. if i < K then -1 else iGenIndex s i),
       iFlag := (\<lambda>a b. if a < K \<and> b < K then 0 else iFlag s a b)\<rparr>"
  unfolding resetAll_def resetSlot_fold by simp


lemma scanRec_fold:
  "fold (scanRec D F ig) xs (s, d0) =
     (s\<lparr>iRecIndex := (iRecIndex s)
          (ig := fst (fold (keep F (\<lambda>ir. D (genJets s ig) (recJets s ir))) xs (iRecIndex s ig, d0)))\<rparr>,
      snd (fold (keep F (\<lambda>ir. D (genJets s ig) (recJets s ir))) xs (iRecIndex s ig, d0)))"
proof (induction xs arbitrary: s d0)
  case Nil
  show ?case by simp
next
  case (Cons x xs)
  show ?case
  proof (cases "D (genJets s ig) (recJets s x) < d0")
    case True
    then have step: "scanRec D F ig x (s, d0) =
        (s\<lparr>iRecIndex := (iRecIndex s)(ig := int x)\<rparr>, F (D (genJets s ig) (recJets s x)))"
      by (simp add: scanRec_def)
    show ?thesis
      using True by (simp add: step Cons.IH keep_def) (rule frame.equality; simp add: fun_eq_iff)
  next
    case False
    then have step: "scanRec D F ig x (s, d0) = (s, d0)"
      by (simp add: scanRec_def)
    show ?thesis
      using False by (simp add: step Cons.IH keep_def)
  qed
qed

lemma scanGen_fold:
  "fold (scanGen D F ir) xs (s, d0) =
     (s\<lparr>iGenIndex := (iGenIndex s)
          (ir := fst (fold (keep F (\<lambda>ig. D (genJets s ig) (recJets s ir))) xs (iGenIndex s ir, d0)))\<rparr>,
      snd (fold (keep F (\<lambda>ig. D (genJets s ig) (recJets s ir))) xs (iGenIndex s ir, d0)))"
proof (induction xs arbitrary: s d0)
  case Nil
  show ?case by simp
next
  case (Cons x xs)
  show ?case
  proof (cases "D (genJets s x) (recJets s ir) < d0")
    case True
    then have step: "scanGen D F ir x (s, d0) =
        (s\<lparr>iGenIndex := (iGenIndex s)(ir := int x)\<rparr>, F (D (genJets s x) (recJets s ir)))"
      by (simp add: scanGen_def)
    show ?thesis
      using True by (simp add: step Cons.IH keep_def) (rule frame.equality; simp add: fun_eq_iff)
  next
    case False
    then have step: "scanGen D F ir x (s, d0) = (s, d0)"
      by (simp add: scanGen_def)
    show ?thesis
      using False by (simp add: step Cons.IH keep_def)
  qed
qed

lemma closestRec_eq:
  "closestRec D F ig s =
     (let c = recChoice D F s ig
      in s\<lparr>iRecIndex := (iRecIndex s)(ig := c),
           iFlag := (if c \<ge> 0 then (iFlag s)(ig := (iFlag s ig)(nat c := iFlag s ig (nat c) + 1))
                     else iFlag s)\<rparr>)"
  by (simp add: closestRec_def scanRec_fold recChoice_def best_def addFlag_def Let_def)

lemma closestGen_eq:
  "closestGen D F ir s =
     (let c = genChoice D F s ir
      in s\<lparr>iGenIndex := (iGenIndex s)(ir := c),
           iFlag := (if c \<ge> 0 then (iFlag s)(nat c := (iFlag s (nat c))(ir := iFlag s (nat c) ir + 2))
                     else iFlag s)\<rparr>)"
  by (simp add: closestGen_def scanGen_fold genChoice_def best_def addFlag_def Let_def)


lemma recChoice_cong:
  "genJets t = genJets s \<Longrightarrow> recJets t = recJets s \<Longrightarrow> nRecJets t = nRecJets s \<Longrightarrow>
   iRecIndex t ig = iRecIndex s ig \<Longrightarrow> recChoice D F t ig = recChoice D F s ig"
  by (simp add: recChoice_def)

lemma genChoice_cong:
  "genJets t = genJets s \<Longrightarrow> recJets t = recJets s \<Longrightarrow> nGenJets t = nGenJets s \<Longrightarrow>
   iGenIndex t ir = iGenIndex s ir \<Longrightarrow> genChoice D F t ir = genChoice D F s ir"
  by (simp add: genChoice_def)

lemma closestRec_fold:
  "distinct xs \<Longrightarrow>
   fold (closestRec D F) xs s =
     s\<lparr>iRecIndex := (\<lambda>ig. if ig \<in> set xs then recChoice D F s ig else iRecIndex s ig),
       iFlag := (\<lambda>a b. iFlag s a b + (if a \<in> set xs \<and> recChoice D F s a = int b then 1 else 0))\<rparr>"
proof (induction xs arbitrary: s)
  case Nil
  show ?case by simp
next
  case (Cons x xs)
  define t where "t = closestRec D F x s"
  have same: "recChoice D F t ig = recChoice D F s ig" if "ig \<in> set xs" for ig
  proof -
    from that Cons.prems have "ig \<noteq> x" by auto
    then show ?thesis
      by (intro recChoice_cong) (simp_all add: t_def closestRec_eq Let_def)
  qed
  have t_idx: "iRecIndex t = (iRecIndex s)(x := recChoice D F s x)"
    by (simp add: t_def closestRec_eq Let_def)
  have t_flag: "iFlag t = (\<lambda>a b. iFlag s a b + (if a = x \<and> recChoice D F s x = int b then 1 else 0))"
    by (auto simp add: t_def closestRec_eq Let_def fun_eq_iff)
  have dx: "distinct xs" and nx: "x \<notin> set xs"
    using Cons.prems by simp_all
  have "fold (closestRec D F) (x # xs) s = fold (closestRec D F) xs t"
    by (simp add: t_def)
  also have "\<dots> = t\<lparr>iRecIndex := (\<lambda>ig. if ig \<in> set xs then recChoice D F t ig else iRecIndex t ig),
       iFlag := (\<lambda>a b. iFlag t a b + (if a \<in> set xs \<and> recChoice D F t a = int b then 1 else 0))\<rparr>"
    by (rule Cons.IH [OF dx])
  also have "\<dots> = s\<lparr>iRecIndex := (\<lambda>ig. if ig \<in> set (x # xs) then recChoice D F s ig else iRecIndex s ig),
       iFlag := (\<lambda>a b. iFlag s a b + (if a \<in> set (x # xs) \<and> recChoice D F s a = int b then 1 else 0))\<rparr>"
  proof (rule frame.equality)
    show "iRecIndex (t\<lparr>iRecIndex := (\<lambda>ig. if ig \<in> set xs then recChoice D F t ig else iRecIndex t ig),
       iFlag := (\<lambda>a b. iFlag t a b + (if a \<in> set xs \<and> recChoice D F t a = int b then 1 else 0))\<rparr>)
      = iRecIndex (s\<lparr>iRecIndex := (\<lambda>ig. if ig \<in> set (x # xs) then recChoice D F s ig else iRecIndex s ig),
       iFlag := (\<lambda>a b. iFlag s a b + (if a \<in> set (x # xs) \<and> recChoice D F s a = int b then 1 else 0))\<rparr>)"
      using nx by (auto simp add: fun_eq_iff t_idx t_flag same)
    show "iFlag (t\<lparr>iRecIndex := (\<lambda>ig. if ig \<in> set xs then recChoice D F t ig else iRecIndex t ig),
       iFlag := (\<lambda>a b. iFlag t a b + (if a \<in> set xs \<and> recChoice D F t a = int b then 1 else 0))\<rparr>)
      = iFlag (s\<lparr>iRecIndex := (\<lambda>ig. if ig \<in> set (x # xs) then recChoice D F s ig else iRecIndex s ig),
       iFlag := (\<lambda>a b. iFlag s a b + (if a \<in> set (x # xs) \<and> recChoice D F s a = int b then 1 else 0))\<rparr>)"
      using nx by (auto simp add: fun_eq_iff t_idx t_flag same)
  qed (simp_all add: t_def closestRec_eq Let_def)
  finally show ?case .
qed

lemma closestGen_fold:
  "distinct xs \<Longrightarrow>
   fold (closestGen D F) xs s =
     s\<lparr>iGenIndex := (\<lambda>ir. if ir \<in> set xs then genChoice D F s ir else iGenIndex s ir),
       iFlag := (\<lambda>a b. iFlag s a b + (if b \<in> set xs \<and> genChoice D F s b = int a then 2 else 0))\<rparr>"
proof (induction xs arbitrary: s)
  case Nil
  show ?case by simp
next
  case (Cons x xs)
  define t where "t = closestGen D F x s"
  have same: "genChoice D F t ir = genChoice D F s ir" if "ir \<in> set xs" for ir
  proof -
    from that Cons.prems have "ir \<noteq> x" by auto
    then show ?thesis
      by (intro genChoice_cong) (simp_all add: t_def closestGen_eq Let_def)
  qed
  have t_idx: "iGenIndex t = (iGenIndex s)(x := genChoice D F s x)"
    by (simp add: t_def closestGen_eq Let_def)
  have t_flag: "iFlag t = (\<lambda>a b. iFlag s a b + (if b = x \<and> genChoice D F s x = int a then 2 else 0))"
    by (auto simp add: t_def closestGen_eq Let_def fun_eq_iff)
  have dx: "distinct xs" and nx: "x \<notin> set xs"
    using Cons.prems by simp_all
  have "fold (closestGen D F) (x # xs) s = fold (closestGen D F) xs t"
    by (simp add: t_def)
  also have "\<dots> = t\<lparr>iGenIndex := (\<lambda>ir. if ir \<in> set xs then genChoice D F t ir else iGenIndex t ir),
       iFlag := (\<lambda>a b. iFlag t a b + (if b \<in> set xs \<and> genChoice D F t b = int a then 2 else 0))\<rparr>"
    by (rule Cons.IH [OF dx])
  also have "\<dots> = s\<lparr>iGenIndex := (\<lambda>ir. if ir \<in> set (x # xs) then genChoice D F s ir else iGenIndex s ir),
       iFlag := (\<lambda>a b. iFlag s a b + (if b \<in> set (x # xs) \<and> genChoice D F s b = int a then 2 else 0))\<rparr>"
  proof (rule frame.equality)
    show "iGenIndex (t\<lparr>iGenIndex := (\<lambda>ir. if ir \<in> set xs then genChoice D F t ir else iGenIndex t ir),
       iFlag := (\<lambda>a b. iFlag t a b + (if b \<in> set xs \<and> genChoice D F t b = int a then 2 else 0))\<rparr>)
      = iGenIndex (s\<lparr>iGenIndex := (\<lambda>ir. if ir \<in> set (x # xs) then genChoice D F s ir else iGenIndex s ir),
       iFlag := (\<lambda>a b. iFlag s a b + (if b \<in> set (x # xs) \<and> genChoice D F s b = int a then 2 else 0))\<rparr>)"
      using nx by (auto simp add: fun_eq_iff t_idx t_flag same)
    show "iFlag (t\<lparr>iGenIndex := (\<lambda>ir. if ir \<in> set xs then genChoice D F t ir else iGenIndex t ir),
       iFlag := (\<lambda>a b. iFlag t a b + (if b \<in> set xs \<and> genChoice D F t b = int a then 2 else 0))\<rparr>)
      = iFlag (s\<lparr>iGenIndex := (\<lambda>ir. if ir \<in> set (x # xs) then genChoice D F s ir else iGenIndex s ir),
       iFlag := (\<lambda>a b. iFlag s a b + (if b \<in> set (x # xs) \<and> genChoice D F s b = int a then 2 else 0))\<rparr>)"
      using nx by (auto simp add: fun_eq_iff t_idx t_flag same)
  qed (simp_all add: t_def closestGen_eq Let_def)
  finally show ?case .
qed

lemma forwardPass_eq:
  "forwardPass D F s =
     s\<lparr>iRecIndex := (\<lambda>ig. if int ig < nGenJets s then recChoice D F s ig else iRecIndex s ig),
       iFlag := (\<lambda>a b. iFlag s a b + (if int a < nGenJets s \<and> recChoice D F s a = int b then 1 else 0))\<rparr>"
  unfolding forwardPass_def by (subst closestRec_fold) (auto simp add: fun_eq_iff intro!: frame.equality)

lemma backwardPass_eq:
  "backwardPass D F s =
     s\<lparr>iGenIndex := (\<lambda>ir. if int ir < nRecJets s then genChoice D F s ir else iGenIndex s ir),
       iFlag := (\<lambda>a b. iFlag s a b + (if int b < nRecJets s \<and> genChoice D F s b = int a then 2 else 0))\<rparr>"
  unfolding backwardPass_def by (subst closestGen_fold) (auto simp add: fun_eq_iff intro!: frame.equality)


lemma checkCell_fold:
  "fold (checkCell ig) [0..<n] s =
     s\<lparr>iGenIndex := (\<lambda>r. if r < n then (if iFlag s ig r = 3 then int ig else -1) else iGenIndex s r),
       iRecIndex := (\<lambda>g. if g = ig \<and> 0 < n then (if iFlag s ig (n - 1) = 3 then int (n - 1) else -1)
                          else iRecIndex s g)\<rparr>"
proof (induction n)
  case 0
  show ?case by simp
next
  case (Suc n)
  have "fold (checkCell ig) [0..<Suc n] s = checkCell ig n (fold (checkCell ig) [0..<n] s)"
    by simp
  also have "\<dots> = checkCell ig n (s\<lparr>iGenIndex := (\<lambda>r. if r < n then (if iFlag s ig r = 3 then int ig else -1) else iGenIndex s r),
       iRecIndex := (\<lambda>g. if g = ig \<and> 0 < n then (if iFlag s ig (n - 1) = 3 then int (n - 1) else -1)
                          else iRecIndex s g)\<rparr>)"
    by (simp only: Suc.IH)
  also have "\<dots> = s\<lparr>iGenIndex := (\<lambda>r. if r < Suc n then (if iFlag s ig r = 3 then int ig else -1) else iGenIndex s r),
       iRecIndex := (\<lambda>g. if g = ig \<and> 0 < Suc n then (if iFlag s ig (Suc n - 1) = 3 then int (Suc n - 1) else -1)
                          else iRecIndex s g)\<rparr>"
    by (rule frame.equality) (auto simp add: checkCell_def fun_eq_iff)
  finally show ?case .
qed

lemma checkRow_eq:
  "checkRow ig s =
     s\<lparr>iGenIndex := (\<lambda>r. if int r < nRecJets s then (if iFlag s ig r = 3 then int ig else -1)
                          else iGenIndex s r),
       iRecIndex := (\<lambda>g. if g = ig \<and> 0 < nRecJets s
                          then (if iFlag s ig (nat (nRecJets s) - 1) = 3 then nRecJets s - 1 else -1)
                          else iRecIndex s g)\<rparr>"
  unfolding checkRow_def checkCell_fold
  by (rule frame.equality) (auto simp add: fun_eq_iff)

lemma checkRow_fold:
  "fold checkRow [0..<m] s =
     s\<lparr>iGenIndex := (\<lambda>r. if 0 < m \<and> int r < nRecJets s
                          then (if iFlag s (m - 1) r = 3 then int (m - 1) else -1)
                          else iGenIndex s r),
       iRecIndex := (\<lambda>g. if g < m \<and> 0 < nRecJets s
                          then (if iFlag s g (nat (nRecJets s) - 1) = 3 then nRecJets s - 1 else -1)
                          else iRecIndex s g)\<rparr>"
proof (induction m)
  case 0
  show ?case by simp
next
  case (Suc m)
  have "fold checkRow [0..<Suc m] s = checkRow m (fold checkRow [0..<m] s)"
    by simp
  also have "\<dots> = checkRow m (s\<lparr>iGenIndex := (\<lambda>r. if 0 < m \<and> int r < nRecJets s
                          then (if iFlag s (m - 1) r = 3 then int (m - 1) else -1)
                          else iGenIndex s r),
       iRecIndex := (\<lambda>g. if g < m \<and> 0 < nRecJets s
                          then (if iFlag s g (nat (nRecJets s) - 1) = 3 then nRecJets s - 1 else -1)
                          else iRecIndex s g)\<rparr>)"
    by (simp only: Suc.IH)
  also have "\<dots> = s\<lparr>iGenIndex := (\<lambda>r. if 0 < Suc m \<and> int r < nRecJets s
                          then (if iFlag s (Suc m - 1) r = 3 then int (Suc m - 1) else -1)
                          else iGenIndex s r),
       iRecIndex := (\<lambda>g. if g < Suc m \<and> 0 < nRecJets s
                          then (if iFlag s g (nat (nRecJets s) - 1) = 3 then nRecJets s - 1 else -1)
                          else iRecIndex s g)\<rparr>"
    unfolding checkRow_eq by (rule frame.equality) (auto simp add: fun_eq_iff)
  finally show ?case .
qed

lemma checkPass_eq:
  "checkPass s =
     s\<lparr>iGenIndex := (\<lambda>r. if 0 < nGenJets s \<and> int r < nRecJets s
                          then (if iFlag s (nat (nGenJets s) - 1) r = 3 then nGenJets s - 1 else -1)
                          else iGenIndex s r),
       iRecIndex := (\<lambda>g. if int g < nGenJets s \<and> 0 < nRecJets s
                          then (if iFlag s g (nat (nRecJets s) - 1) = 3 then nRecJets s - 1 else -1)
                          else iRecIndex s g)\<rparr>"
  unfolding checkPass_def checkRow_fold
  by (rule frame.equality) (auto simp add: fun_eq_iff)


lemma keep_fold_range:
  "fst (fold (keep F d) xs p) = fst p \<or> (\<exists>j\<in>set xs. fst (fold (keep F d) xs p) = int j)"
proof (induction xs arbitrary: p)
  case Nil
  show ?case by simp
next
  case (Cons x xs)
  from Cons.IH [of "keep F d x p"] show ?case
    by (auto simp add: keep_def split: if_splits)
qed

lemma best_range: "best F d n i0 = i0 \<or> (\<exists>j<n. best F d n i0 = int j)"
  using keep_fold_range [of F d "[0..<n]" "(i0, maxDist F)"] by (auto simp add: best_def)

lemma best_0 [simp]: "best F d 0 i0 = i0"
  by (simp add: best_def)

lemma GetClosestJets_run:
  assumes "nGenJets s \<noteq> 0" "nRecJets s \<noteq> 0" "nGenJets s \<le> int K" "nRecJets s \<le> int K"
  shows "GetClosestJets K D F s =
           Inr (checkPass (backwardPass D F (forwardPass D F (resetAll K s))))"
  using assms by (simp add: GetClosestJets_def resetAll_eq Let_def)

lemma GetClosestJets_early:
  assumes "nGenJets s = 0 \<or> nRecJets s = 0"
  shows "GetClosestJets K D F s = Inr (resetAll K s)"
  using assms by (auto simp add: GetClosestJets_def resetAll_eq Let_def)

lemma passes_frame:
  "genJets (backwardPass D F (forwardPass D F (resetAll K s))) = genJets s"
  "recJets (backwardPass D F (forwardPass D F (resetAll K s))) = recJets s"
  "nGenJets (backwardPass D F (forwardPass D F (resetAll K s))) = nGenJets s"
  "nRecJets (backwardPass D F (forwardPass D F (resetAll K s))) = nRecJets s"
  by (simp_all add: backwardPass_eq forwardPass_eq resetAll_eq)

lemma genChoice_forward:
  "genChoice D F (forwardPass D F t) r = genChoice D F t r"
  by (rule genChoice_cong) (simp_all add: forwardPass_eq)

lemma matchFlags_eq:
  assumes "a < K" "b < K"
  shows "matchFlags K D F s a b =
           (if int a < nGenJets s \<and> recChoice D F (resetAll K s) a = int b then 1 else 0)
         + (if int b < nRecJets s \<and> genChoice D F (resetAll K s) b = int a then 2 else 0)"
proof -
  have "iFlag (resetAll K s) a b = 0"
    using assms by (simp add: resetAll_eq)
  then show ?thesis
    unfolding matchFlags_def
    by (simp add: backwardPass_eq [of D F "forwardPass D F (resetAll K s)"] genChoice_forward)
       (simp add: forwardPass_eq resetAll_eq)
qed

lemma passes_iRecIndex:
  "iRecIndex (backwardPass D F (forwardPass D F (resetAll K s))) g =
     (if int g < nGenJets s then recChoice D F (resetAll K s) g
      else if g < K then -1 else iRecIndex s g)"
  by (simp add: backwardPass_eq forwardPass_eq) (simp add: resetAll_eq)

lemma passes_iGenIndex:
  "iGenIndex (backwardPass D F (forwardPass D F (resetAll K s))) r =
     (if int r < nRecJets s then genChoice D F (resetAll K s) r
      else if r < K then -1 else iGenIndex s r)"
  by (simp add: backwardPass_eq [of D F "forwardPass D F (resetAll K s)"] genChoice_forward)
     (simp add: forwardPass_eq resetAll_eq)

lemma matchFlags_3:
  assumes "a < K" "b < K" "matchFlags K D F s a b = 3"
  shows "recChoice D F (resetAll K s) a = int b \<and> genChoice D F (resetAll K s) b = int a"
  using assms(3) unfolding matchFlags_eq [OF assms(1,2)] by (simp split: if_splits)

lemma final_iGenIndex:
  "iGenIndex (checkPass (backwardPass D F (forwardPass D F (resetAll K s)))) r =
     (if 0 < nGenJets s \<and> int r < nRecJets s
      then (if matchFlags K D F s (nat (nGenJets s) - 1) r = 3 then nGenJets s - 1 else -1)
      else if int r < nRecJets s then genChoice D F (resetAll K s) r
      else if r < K then -1 else iGenIndex s r)"
  by (simp add: checkPass_eq passes_frame passes_iGenIndex matchFlags_def)

lemma final_iRecIndex:
  "iRecIndex (checkPass (backwardPass D F (forwardPass D F (resetAll K s)))) g =
     (if int g < nGenJets s \<and> 0 < nRecJets s
      then (if matchFlags K D F s g (nat (nRecJets s) - 1) = 3 then nRecJets s - 1 else -1)
      else if int g < nGenJets s then recChoice D F (resetAll K s) g
      else if g < K then -1 else iRecIndex s g)"
  by (simp add: checkPass_eq passes_frame passes_iRecIndex matchFlags_def)

lemma final_iFlag:
  "iFlag (checkPass (backwardPass D F (forwardPass D F (resetAll K s)))) = matchFlags K D F s"
  by (simp add: checkPass_eq matchFlags_def)

lemma recChoice_none:
  assumes "nRecJets s \<le> 0" "g < K"
  shows "recChoice D F (resetAll K s) g = -1"
  using assms by (simp add: recChoice_def resetAll_eq)

lemma genChoice_none:
  assumes "nGenJets s \<le> 0" "r < K"
  shows "genChoice D F (resetAll K s) r = -1"
  using assms by (simp add: genChoice_def resetAll_eq)

lemma GetClosestJets_cases:
  assumes "nGenJets s \<le> int K" "nRecJets s \<le> int K"
  obtains (early) "nGenJets s = 0 \<or> nRecJets s = 0" "GetClosestJets K D F s = Inr (resetAll K s)"
    | (run) "nGenJets s \<noteq> 0" "nRecJets s \<noteq> 0"
        "GetClosestJets K D F s = Inr (checkPass (backwardPass D F (forwardPass D F (resetAll K s))))"
  using assms GetClosestJets_early [of s K D F] GetClosestJets_run [of s K D F] by blast

lemma checkPass_frame:
  "genJets (checkPass t) = genJets t" "recJets (checkPass t) = recJets t"
  "nGenJets (checkPass t) = nGenJets t" "nRecJets (checkPass t) = nRecJets t"
  by (simp_all add: checkPass_eq)

subsection \<open>A scan whose distances are narrowed without loss\<close>









section \<open>Evaluation at concrete inputs\<close>

subsection \<open>Single precision\<close>

lemma binary32_eval:
  assumes "2 powr (of_int e) \<le> \<bar>x\<bar>" "\<bar>x\<bar> < 2 powr (of_int e + 1)" "- 126 \<le> e"
  shows "binary32 x = of_int (roundEven (x / 2 powr (of_int e - 23))) * 2 powr (of_int e - 23)"
proof -
  have "0 < (2::real) powr (of_int e)"
    by simp
  with assms(1) have pos: "0 < \<bar>x\<bar>"
    by linarith
  have "\<lfloor>log 2 \<bar>x\<bar>\<rfloor> = e"
    using assms(1,2) pos by (simp add: floor_log_eq_powr_iff)
  with pos assms(3) show ?thesis
    by (simp add: binary32_def Let_def max_def)
qed

lemma roundEven_le: "roundEven y \<le> \<lfloor>y\<rfloor> + 1"
  by (simp add: roundEven_def Let_def)

lemma binary32_upper:
  assumes "2 powr (of_int e) \<le> \<bar>x\<bar>" "\<bar>x\<bar> < 2 powr (of_int e + 1)" "- 126 \<le> e"
  shows "binary32 x \<le> 2 powr (of_int e + 1)"
proof -
  let ?u = "2 powr (of_int e - 23) :: real"
  have u: "0 < ?u" by simp
  have "x / ?u \<le> \<bar>x\<bar> / ?u"
    using u by (simp add: divide_right_mono)
  also have "\<dots> < 2 powr (of_int e + 1) / ?u"
    using u assms(2) by (simp add: divide_strict_right_mono)
  also have "\<dots> = 2 powr 24"
    by (simp add: powr_diff [symmetric])
  also have "\<dots> = of_int (2 ^ 24)"
    by simp
  finally have "\<lfloor>x / ?u\<rfloor> < 2 ^ 24"
    by (simp only: floor_less_iff)
  with roundEven_le [of "x / ?u"] have "roundEven (x / ?u) \<le> 2 ^ 24"
    by linarith
  then have "(of_int (roundEven (x / ?u)) :: real) \<le> of_int (2 ^ 24)"
    by (simp only: of_int_le_iff)
  then have "of_int (roundEven (x / ?u)) * ?u \<le> of_int (2 ^ 24) * ?u"
    using u by (simp only: mult_le_cancel_right_pos)
  also have "of_int (2 ^ 24) * ?u = 2 powr 24 * ?u"
    by simp
  also have "\<dots> = 2 powr (24 + (of_int e - 23))"
    by (simp only: powr_add)
  also have "24 + (real_of_int e - 23) = of_int e + 1"
    by simp
  finally show ?thesis
    by (simp only: binary32_eval [OF assms])
qed







lemma binade_minus [simp]: "binade (- x) = binade x"
  by (simp add: binade_def)










lemma binary32_zero [simp]: "binary32 0 = 0"
  by (simp add: binary32_def)





lemma binary32_maxDist: "maxDist binary32 = 11744051 / 8388608"
  using binary32_eval [of 0 "14 / 10"] by (simp add: maxDist_def roundEven_def powr_minus Let_def)

lemma angularDistance_same_phi:
  "Phi a = Phi b \<Longrightarrow> angularDistance a b = \<bar>Eta a - Eta b\<bar>"
  by (simp add: angularDistance_def)

subsection \<open>Distances of the scenario jets\<close>

lemma angularDistance_plain:
  assumes "\<bar>Phi a - Phi b\<bar> \<le> 2"
  shows "angularDistance a b = sqrt ((Phi a - Phi b)\<^sup>2 + (Eta a - Eta b)\<^sup>2)"
proof -
  from assms pi_ge_two have "\<not> Phi a - Phi b > pi" "\<not> Phi a - Phi b < - pi"
    by linarith+
  then show ?thesis
    by (simp add: angularDistance_def Let_def power2_eq_square)
qed

lemma scenario_distances:
  "angularDistance jetG0 jetR0 = sqrt (1 / 2000)"
  "angularDistance jetG1 jetR0 = sqrt (941 / 2000)"
  "angularDistance jetG0 jetR1 = sqrt (1 / 2)"
  by (simp_all add: angularDistance_plain jetG0_def jetG1_def jetR0_def jetR1_def mkJet_def power2_eq_square)

lemma scenario_near: "sqrt (1 / 2000) < maxDist binary32"
  unfolding binary32_maxDist by (rule real_less_lsqrt) (simp_all add: power2_eq_square)

lemma scenario_narrowed: "binary32 (sqrt (1 / 2000)) \<le> 1 / 32"
proof -
  have lo: "(1 / 64 :: real) \<le> sqrt (1 / 2000)"
    by (rule real_le_rsqrt) (simp add: power2_eq_square)
  have hi: "sqrt (1 / 2000) < (1 / 32 :: real)"
    by (rule real_less_lsqrt) (simp_all add: power2_eq_square)
  have "binary32 (sqrt (1 / 2000)) \<le> 2 powr (of_int (- 6) + 1)"
    using lo hi by (intro binary32_upper) (simp_all add: powr_minus)
  then show ?thesis
    by (simp add: powr_minus)
qed

lemma scenario_far:
  "\<not> sqrt (941 / 2000) < binary32 (sqrt (1 / 2000))"
  "\<not> sqrt (1 / 2) < binary32 (sqrt (1 / 2000))"
proof -
  have "(1 / 32 :: real) \<le> sqrt (941 / 2000)"
    by (rule real_le_rsqrt) (simp add: power2_eq_square)
  with scenario_narrowed show "\<not> sqrt (941 / 2000) < binary32 (sqrt (1 / 2000))"
    by linarith
  have "(1 / 32 :: real) \<le> sqrt (1 / 2)"
    by (rule real_le_rsqrt) (simp add: power2_eq_square)
  with scenario_narrowed show "\<not> sqrt (1 / 2) < binary32 (sqrt (1 / 2000))"
    by linarith
qed

lemma binary32_sixteenths:
  "binary32 (7 / 8) = 7 / 8" "binary32 (5 / 16) = 5 / 16" "binary32 (7 / 16) = 7 / 16"
  "binary32 (3 / 8) = 3 / 8" "binary32 (3 / 16) = 3 / 16" "binary32 (1 / 16) = 1 / 16"
  "binary32 (9 / 16) = 9 / 16"
  using binary32_eval [of "-1" "7 / 8"] binary32_eval [of "-2" "5 / 16"]
    binary32_eval [of "-2" "7 / 16"] binary32_eval [of "-2" "3 / 8"]
    binary32_eval [of "-3" "3 / 16"] binary32_eval [of "-4" "1 / 16"]
    binary32_eval [of "-1" "9 / 16"]
  by (simp_all add: roundEven_def powr_minus Let_def)

lemma best_3: "best F d 3 i0 = fst (keep F d 2 (keep F d (Suc 0) (keep F d 0 (i0, maxDist F))))"
  by (simp add: best_def numeral_3_eq_3 numeral_2_eq_2)

lemma crossed_fields:
  "nGenJets crossed = 3" "nRecJets crossed = 3"
  by (simp_all add: crossed_def callFrame_def)

lemma crossed_table:
  "angularDistance (genJets crossed 0) (recJets crossed 0) = 7 / 8"
  "angularDistance (genJets crossed 0) (recJets crossed (Suc 0)) = 5 / 16"
  "angularDistance (genJets crossed 0) (recJets crossed 2) = 9 / 16"
  "angularDistance (genJets crossed (Suc 0)) (recJets crossed 0) = 7 / 16"
  "angularDistance (genJets crossed (Suc 0)) (recJets crossed (Suc 0)) = 1"
  "angularDistance (genJets crossed (Suc 0)) (recJets crossed 2) = 3 / 4"
  "angularDistance (genJets crossed 2) (recJets crossed 0) = 3 / 8"
  "angularDistance (genJets crossed 2) (recJets crossed (Suc 0)) = 3 / 16"
  "angularDistance (genJets crossed 2) (recJets crossed 2) = 1 / 16"
  by (simp_all add: crossed_def callFrame_def angularDistance_same_phi mkJet_def)

lemma crossed_reset:
  "genJets (resetAll 50 crossed) = genJets crossed" "recJets (resetAll 50 crossed) = recJets crossed"
  "nGenJets (resetAll 50 crossed) = 3" "nRecJets (resetAll 50 crossed) = 3"
  "i < 50 \<Longrightarrow> iRecIndex (resetAll 50 crossed) i = -1"
  "i < 50 \<Longrightarrow> iGenIndex (resetAll 50 crossed) i = -1"
  by (simp_all add: resetAll_eq crossed_fields)

lemma crossed_recChoice:
  "recChoice angularDistance binary32 (resetAll 50 crossed) 0 = 1"
  "recChoice angularDistance binary32 (resetAll 50 crossed) (Suc 0) = 0"
  "recChoice angularDistance binary32 (resetAll 50 crossed) 2 = 2"
  by (simp_all add: recChoice_def best_3 keep_def crossed_reset crossed_table
        binary32_maxDist binary32_sixteenths)

lemma crossed_genChoice:
  "genChoice angularDistance binary32 (resetAll 50 crossed) 0 = 2"
  "genChoice angularDistance binary32 (resetAll 50 crossed) (Suc 0) = 2"
  "genChoice angularDistance binary32 (resetAll 50 crossed) 2 = 2"
  by (simp_all add: genChoice_def best_3 keep_def crossed_reset crossed_table
        binary32_maxDist binary32_sixteenths)






lemma forward_recChoice:
  assumes "int g < nGenJets s"
  shows "iRecIndex (forwardPass D F (resetAll K s)) g = recChoice D F (resetAll K s) g"
  using assms by (simp add: forwardPass_eq) (simp add: resetAll_eq)

lemma binary32_eighths:
  "binary32 (1 / 2) = 1 / 2" "binary32 (5 / 8) = 5 / 8"
  using binary32_eval [of "-1" "1 / 2"] binary32_eval [of "-1" "5 / 8"]
  by (simp_all add: roundEven_def powr_minus Let_def)

lemma best_2: "best F d 2 i0 = fst (keep F d (Suc 0) (keep F d 0 (i0, maxDist F)))"
  by (simp add: best_def numeral_2_eq_2)

lemma crossedThird_fields:
  "nGenJets crossedThird = 3" "nRecJets crossedThird = 2"
  by (simp_all add: crossedThird_def callFrame_def)

lemma crossedThird_table:
  "angularDistance (genJets crossedThird 0) (recJets crossedThird 0) = 7 / 8"
  "angularDistance (genJets crossedThird 0) (recJets crossedThird (Suc 0)) = 1 / 2"
  "angularDistance (genJets crossedThird (Suc 0)) (recJets crossedThird 0) = 5 / 8"
  "angularDistance (genJets crossedThird (Suc 0)) (recJets crossedThird (Suc 0)) = 1"
  "angularDistance (genJets crossedThird 2) (recJets crossedThird 0) = 1 / 16"
  "angularDistance (genJets crossedThird 2) (recJets crossedThird (Suc 0)) = 5 / 16"
  by (simp_all add: crossedThird_def callFrame_def angularDistance_same_phi mkJet_def)

lemma crossedThird_reset:
  "genJets (resetAll 50 crossedThird) = genJets crossedThird"
  "recJets (resetAll 50 crossedThird) = recJets crossedThird"
  "nGenJets (resetAll 50 crossedThird) = 3" "nRecJets (resetAll 50 crossedThird) = 2"
  "i < 50 \<Longrightarrow> iRecIndex (resetAll 50 crossedThird) i = -1"
  "i < 50 \<Longrightarrow> iGenIndex (resetAll 50 crossedThird) i = -1"
  by (simp_all add: resetAll_eq crossedThird_fields)

lemma crossedThird_recChoice:
  "recChoice angularDistance binary32 (resetAll 50 crossedThird) 0 = 1"
  "recChoice angularDistance binary32 (resetAll 50 crossedThird) (Suc 0) = 0"
  "recChoice angularDistance binary32 (resetAll 50 crossedThird) 2 = 0"
  by (simp_all add: recChoice_def best_2 keep_def crossedThird_reset crossedThird_table
        binary32_maxDist binary32_sixteenths binary32_eighths)

lemma crossedThird_genChoice:
  "genChoice angularDistance binary32 (resetAll 50 crossedThird) 0 = 2"
  "genChoice angularDistance binary32 (resetAll 50 crossedThird) (Suc 0) = 2"
  by (simp_all add: genChoice_def best_3 keep_def crossedThird_reset crossedThird_table
        binary32_maxDist binary32_sixteenths binary32_eighths)

section \<open>The claims about GetClosestJets\<close>

text \<open>
  Claim C1 asks for a symmetric result: whenever \<open>iGenIndex[r] = g\<close> is not \<open>-1\<close>, then
  \<open>iRecIndex[g] = r\<close>, and the other way around. The routine does not deliver it. For one
  generated jet and two reconstructed jets, the first of them within \<open>maxDist\<close> and the
  second not closer than the first, the cell \<open>(0, 0)\<close> carries the flag 3 and is accepted,
  and the cell \<open>(0, 1)\<close>, examined after it, takes the else branch and resets
  \<open>iRecIndex[0]\<close>: the result has \<open>iGenIndex[0] = 0\<close> and \<open>iRecIndex[0] = -1\<close>.
\<close>

theorem accepted_pair_overwritten:
  assumes "nGenJets s = 1" "nRecJets s = 2" "2 \<le> K"
    and near: "D (genJets s 0) (recJets s 0) < maxDist F"
    and far: "\<not> D (genJets s 0) (recJets s 1) < F (D (genJets s 0) (recJets s 0))"
  shows "\<exists>s'. GetClosestJets K D F s = Inr s' \<and> iGenIndex s' 0 = 0 \<and> iRecIndex s' 0 = -1"
proof -
  have run: "GetClosestJets K D F s =
      Inr (checkPass (backwardPass D F (forwardPass D F (resetAll K s))))"
    using assms(1-3) by (intro GetClosestJets_run) simp_all
  have K: "0 < K" "1 < K"
    using assms(3) by simp_all
  have rc: "recChoice D F (resetAll K s) 0 = 0"
    using assms(2) near far K by (simp add: recChoice_def best_def resetAll_eq keep_def numeral_2_eq_2)
  have gc: "genChoice D F (resetAll K s) 0 = 0"
    using assms(1) near K by (simp add: genChoice_def best_def resetAll_eq keep_def)
  have f00: "matchFlags K D F s 0 0 = 3"
    using assms(1,2) rc gc by (simp add: matchFlags_eq [OF K(1) K(1)])
  have f01: "matchFlags K D F s 0 1 \<noteq> 3"
    using matchFlags_3 [OF K(1) K(2), of D F s] rc by auto
  show ?thesis
    unfolding run using assms(1,2) f00 f01 by (simp add: final_iGenIndex final_iRecIndex)
qed

theorem accepted_pair_overwritten_witness:
  "nGenJets oneGenTwoRec = 1 \<and> nRecJets oneGenTwoRec = 2 \<and> (2::nat) \<le> 50 \<and>
   angularDistance (genJets oneGenTwoRec 0) (recJets oneGenTwoRec 0) < maxDist binary32 \<and>
   \<not> angularDistance (genJets oneGenTwoRec 0) (recJets oneGenTwoRec 1)
       < binary32 (angularDistance (genJets oneGenTwoRec 0) (recJets oneGenTwoRec 0)) \<and>
   (\<exists>s'. GetClosestJets 50 angularDistance binary32 oneGenTwoRec = Inr s' \<and>
         iGenIndex s' 0 = 0 \<and> iRecIndex s' 0 = -1)"
proof -
  have h: "nGenJets oneGenTwoRec = 1" "nRecJets oneGenTwoRec = 2" "(2::nat) \<le> 50"
    "angularDistance (genJets oneGenTwoRec 0) (recJets oneGenTwoRec 0) < maxDist binary32"
    "\<not> angularDistance (genJets oneGenTwoRec 0) (recJets oneGenTwoRec 1)
       < binary32 (angularDistance (genJets oneGenTwoRec 0) (recJets oneGenTwoRec 0))"
    by (simp_all add: oneGenTwoRec_def callFrame_def scenario_distances scenario_near scenario_far)
  from accepted_pair_overwritten [of oneGenTwoRec 50 angularDistance binary32, OF h] h show ?thesis
    by blast
qed

text \<open>
  Claim C2: with at least one jet on each side, the result is decided by the last cell
  of the check that touches a slot. For every \<open>r < nRecJets\<close>, \<open>iGenIndex[r]\<close> is
  \<open>nGenJets - 1\<close> if the flag of the cell \<open>(nGenJets - 1, r)\<close> is 3 and \<open>-1\<close> otherwise;
  for every \<open>g < nGenJets\<close>, \<open>iRecIndex[g]\<close> is \<open>nRecJets - 1\<close> if the flag of the cell
  \<open>(g, nRecJets - 1)\<close> is 3 and \<open>-1\<close> otherwise. The flags are those the two direction
  passes leave; the check does not write them.
\<close>

theorem last_cell_decides:
  assumes "1 \<le> nGenJets s" "1 \<le> nRecJets s" "nGenJets s \<le> int K" "nRecJets s \<le> int K"
  shows "\<exists>s'. GetClosestJets K D F s = Inr s' \<and> iFlag s' = matchFlags K D F s \<and>
           (\<forall>r. int r < nRecJets s \<longrightarrow>
              iGenIndex s' r = (if matchFlags K D F s (nat (nGenJets s) - 1) r = 3
                                then nGenJets s - 1 else -1)) \<and>
           (\<forall>g. int g < nGenJets s \<longrightarrow>
              iRecIndex s' g = (if matchFlags K D F s g (nat (nRecJets s) - 1) = 3
                                then nRecJets s - 1 else -1))"
proof -
  have run: "GetClosestJets K D F s =
      Inr (checkPass (backwardPass D F (forwardPass D F (resetAll K s))))"
    using assms by (intro GetClosestJets_run) simp_all
  show ?thesis
    unfolding run using assms(1,2) by (simp add: final_iGenIndex final_iRecIndex final_iFlag)
qed

theorem last_cell_decides_witness:
  "1 \<le> nGenJets twoGenOneRec \<and> 1 \<le> nRecJets twoGenOneRec \<and>
   nGenJets twoGenOneRec \<le> int 50 \<and> nRecJets twoGenOneRec \<le> int 50 \<and>
   (\<exists>s'. GetClosestJets 50 angularDistance binary32 twoGenOneRec = Inr s' \<and>
      iFlag s' = matchFlags 50 angularDistance binary32 twoGenOneRec \<and>
      (\<forall>r. int r < nRecJets twoGenOneRec \<longrightarrow>
         iGenIndex s' r =
           (if matchFlags 50 angularDistance binary32 twoGenOneRec (nat (nGenJets twoGenOneRec) - 1) r = 3
            then nGenJets twoGenOneRec - 1 else -1)) \<and>
      (\<forall>g. int g < nGenJets twoGenOneRec \<longrightarrow>
         iRecIndex s' g =
           (if matchFlags 50 angularDistance binary32 twoGenOneRec g (nat (nRecJets twoGenOneRec) - 1) = 3
            then nRecJets twoGenOneRec - 1 else -1)))"
proof -
  have h: "1 \<le> nGenJets twoGenOneRec" "1 \<le> nRecJets twoGenOneRec"
    "nGenJets twoGenOneRec \<le> int 50" "nRecJets twoGenOneRec \<le> int 50"
    by (simp_all add: twoGenOneRec_def callFrame_def)
  from last_cell_decides [of twoGenOneRec 50 angularDistance binary32, OF h] h show ?thesis
    by blast
qed

text \<open>
  Claim C3 is the scenario of two generated jets \<open>G0 = (0, 0)\<close>, \<open>G1 = (0.5, 0.5)\<close> and
  one reconstructed jet \<open>R0 = (0.02, 0.01)\<close>, for which the specification expects
  \<open>iRecIndex[0] = 0\<close>, \<open>iRecIndex[1] = -1\<close> and \<open>iGenIndex[0] = 0\<close>. With two generated
  jets and one reconstructed jet the routine never returns \<open>iGenIndex[0] = 0\<close>, whatever
  the distances are: the slot is decided by the cell \<open>(1, 0)\<close>. When \<open>R0\<close> is within
  \<open>maxDist\<close> of \<open>G0\<close> and \<open>G1\<close> is not closer to \<open>R0\<close> than \<open>G0\<close>, as in the scenario,
  the result is \<open>iRecIndex[0] = 0\<close>, \<open>iRecIndex[1] = -1\<close> and \<open>iGenIndex[0] = -1\<close>.
\<close>

theorem scenario_two_gen_one_rec:
  assumes "nGenJets s = 2" "nRecJets s = 1" "2 \<le> K"
  shows "\<exists>s'. GetClosestJets K D F s = Inr s' \<and> iGenIndex s' 0 \<noteq> 0 \<and>
           (D (genJets s 0) (recJets s 0) < maxDist F \<and>
            \<not> D (genJets s 1) (recJets s 0) < F (D (genJets s 0) (recJets s 0)) \<longrightarrow>
            iRecIndex s' 0 = 0 \<and> iRecIndex s' 1 = -1 \<and> iGenIndex s' 0 = -1)"
proof -
  have run: "GetClosestJets K D F s =
      Inr (checkPass (backwardPass D F (forwardPass D F (resetAll K s))))"
    using assms by (intro GetClosestJets_run) simp_all
  have K: "0 < K" "1 < K"
    using assms(3) by simp_all
  let ?t = "checkPass (backwardPass D F (forwardPass D F (resetAll K s)))"
  have never: "iGenIndex ?t 0 \<noteq> 0"
    using assms(1,2) by (simp add: final_iGenIndex)
  have exact: "iRecIndex ?t 0 = 0 \<and> iRecIndex ?t 1 = -1 \<and> iGenIndex ?t 0 = -1"
    if near: "D (genJets s 0) (recJets s 0) < maxDist F"
    and far: "\<not> D (genJets s 1) (recJets s 0) < F (D (genJets s 0) (recJets s 0))"
  proof -
    have rc: "recChoice D F (resetAll K s) 0 = 0"
      using assms(2) near K by (simp add: recChoice_def best_def resetAll_eq keep_def)
    have gc: "genChoice D F (resetAll K s) 0 = 0"
      using assms(1) near far K by (simp add: genChoice_def best_def resetAll_eq keep_def numeral_2_eq_2)
    have f00: "matchFlags K D F s 0 0 = 3"
      using assms(1,2) rc gc by (simp add: matchFlags_eq [OF K(1) K(1)])
    have f10: "matchFlags K D F s 1 0 \<noteq> 3"
      using matchFlags_3 [OF K(2) K(1), of D F s] gc by auto
    show ?thesis
      using assms(1,2) f00 f10 by (simp add: final_iGenIndex final_iRecIndex)
  qed
  show ?thesis
    unfolding run using never exact by blast
qed

theorem scenario_two_gen_one_rec_witness:
  "nGenJets twoGenOneRec = 2 \<and> nRecJets twoGenOneRec = 1 \<and> (2::nat) \<le> 50 \<and>
   (\<exists>s'. GetClosestJets 50 angularDistance binary32 twoGenOneRec = Inr s' \<and>
         iGenIndex s' 0 \<noteq> 0 \<and> iRecIndex s' 0 = 0 \<and> iRecIndex s' 1 = -1 \<and> iGenIndex s' 0 = -1)"
proof -
  have h: "nGenJets twoGenOneRec = 2" "nRecJets twoGenOneRec = 1" "(2::nat) \<le> 50"
    by (simp_all add: twoGenOneRec_def callFrame_def)
  have d: "angularDistance (genJets twoGenOneRec 0) (recJets twoGenOneRec 0) < maxDist binary32"
    "\<not> angularDistance (genJets twoGenOneRec 1) (recJets twoGenOneRec 0)
       < binary32 (angularDistance (genJets twoGenOneRec 0) (recJets twoGenOneRec 0))"
    by (simp_all add: twoGenOneRec_def callFrame_def scenario_distances scenario_near scenario_far)
  from scenario_two_gen_one_rec [of twoGenOneRec 50 angularDistance binary32, OF h] h d show ?thesis
    by blast
qed

text \<open>
  Claim C4: a cell \<open>(g, r)\<close> of the sub-grid whose flag is not 3 is never paired in the
  result: \<open>iRecIndex[g]\<close> is not \<open>r\<close> and \<open>iGenIndex[r]\<close> is not \<open>g\<close>. The claim goes
  on: in a crossed configuration, where \<open>G0\<close> chooses \<open>R1\<close> and \<open>G1\<close> chooses \<open>R0\<close>
  and neither choice is returned, all four slots end as \<open>-1\<close>. That holds of the two
  slots of the generated jets. A reconstructed jet of the crossing can still be in
  agreement with a third generated jet. The claim as amended: in a crossed configuration
  \<open>iRecIndex[0]\<close> and \<open>iRecIndex[1]\<close> end as \<open>-1\<close>, and each of \<open>iGenIndex[0]\<close> and
  \<open>iGenIndex[1]\<close> ends as \<open>-1\<close> or as the index of a generated jet other than \<open>G0\<close> and
  \<open>G1\<close> whose cell with that reconstructed jet has the flag 3.
\<close>

theorem unflagged_never_paired_crossing_unmatched:
  assumes "nGenJets s \<le> int K" "nRecJets s \<le> int K"
  shows "\<exists>s'. GetClosestJets K D F s = Inr s' \<and>
           (\<forall>g r. int g < nGenJets s \<and> int r < nRecJets s \<and> matchFlags K D F s g r \<noteq> 3 \<longrightarrow>
              iRecIndex s' g \<noteq> int r \<and> iGenIndex s' r \<noteq> int g) \<and>
           (2 \<le> nGenJets s \<and> 2 \<le> nRecJets s \<and>
            iRecIndex (forwardPass D F (resetAll K s)) 0 = 1 \<and>
            iRecIndex (forwardPass D F (resetAll K s)) 1 = 0 \<and>
            matchFlags K D F s 0 1 \<noteq> 3 \<and> matchFlags K D F s 1 0 \<noteq> 3 \<longrightarrow>
            iRecIndex s' 0 = -1 \<and> iRecIndex s' 1 = -1 \<and>
            (iGenIndex s' 0 = -1 \<or>
             (\<exists>g. 2 \<le> g \<and> int g < nGenJets s \<and> iGenIndex s' 0 = int g \<and> matchFlags K D F s g 0 = 3)) \<and>
            (iGenIndex s' 1 = -1 \<or>
             (\<exists>g. 2 \<le> g \<and> int g < nGenJets s \<and> iGenIndex s' 1 = int g \<and> matchFlags K D F s g 1 = 3)))"
  using assms
proof (cases rule: GetClosestJets_cases [where D = D and F = F])
  case early
  then show ?thesis by auto
next
  case run
  let ?t = "checkPass (backwardPass D F (forwardPass D F (resetAll K s)))"
  let ?m = "nat (nGenJets s) - 1" and ?n = "nat (nRecJets s) - 1"
  have cells: "iRecIndex ?t g \<noteq> int r \<and> iGenIndex ?t r \<noteq> int g"
    if "int g < nGenJets s" "int r < nRecJets s" "matchFlags K D F s g r \<noteq> 3" for g r
  proof
    show "iRecIndex ?t g \<noteq> int r"
    proof
      assume eq: "iRecIndex ?t g = int r"
      with that have "matchFlags K D F s g ?n = 3" "nRecJets s - 1 = int r"
        by (auto simp add: final_iRecIndex split: if_splits)
      moreover from this have "?n = r" by linarith
      ultimately show False using that(3) by simp
    qed
    show "iGenIndex ?t r \<noteq> int g"
    proof
      assume eq: "iGenIndex ?t r = int g"
      with that have "matchFlags K D F s ?m r = 3" "nGenJets s - 1 = int g"
        by (auto simp add: final_iGenIndex split: if_splits)
      moreover from this have "?m = g" by linarith
      ultimately show False using that(3) by simp
    qed
  qed
  have cross: "iRecIndex ?t 0 = -1 \<and> iRecIndex ?t 1 = -1 \<and>
      (iGenIndex ?t 0 = -1 \<or>
       (\<exists>g. 2 \<le> g \<and> int g < nGenJets s \<and> iGenIndex ?t 0 = int g \<and> matchFlags K D F s g 0 = 3)) \<and>
      (iGenIndex ?t 1 = -1 \<or>
       (\<exists>g. 2 \<le> g \<and> int g < nGenJets s \<and> iGenIndex ?t 1 = int g \<and> matchFlags K D F s g 1 = 3))"
    if two: "2 \<le> nGenJets s" "2 \<le> nRecJets s"
      and c0: "iRecIndex (forwardPass D F (resetAll K s)) 0 = 1"
      and c1: "iRecIndex (forwardPass D F (resetAll K s)) 1 = 0"
      and f01: "matchFlags K D F s 0 1 \<noteq> 3" and f10: "matchFlags K D F s 1 0 \<noteq> 3"
  proof -
    have K: "0 < K" "1 < K" "?m < K" "?n < K"
      using two assms by linarith+
    have rc0: "recChoice D F (resetAll K s) 0 = 1"
      using forward_recChoice [of 0 s D F K] two(1) c0 by simp
    have rc1: "recChoice D F (resetAll K s) 1 = 0"
      using forward_recChoice [of 1 s D F K] two(1) c1 by simp
    have r0: "matchFlags K D F s 0 ?n \<noteq> 3"
    proof
      assume "matchFlags K D F s 0 ?n = 3"
      from matchFlags_3 [OF K(1) K(4) this] rc0 have "?n = 1"
        by simp
      with \<open>matchFlags K D F s 0 ?n = 3\<close> f01 show False
        by simp
    qed
    have r1: "matchFlags K D F s 1 ?n \<noteq> 3"
    proof
      assume "matchFlags K D F s 1 ?n = 3"
      from matchFlags_3 [OF K(2) K(4) this] rc1 have "?n = 0"
        by simp
      with two(2) show False
        by linarith
    qed
    have m1: "matchFlags K D F s 1 1 \<noteq> 3"
      using matchFlags_3 [OF K(2) K(2), of D F s] rc1 by auto
    have third: "2 \<le> ?m" if "matchFlags K D F s ?m r = 3" "r = 0 \<or> r = 1" for r
    proof (rule ccontr)
      assume "\<not> 2 \<le> ?m"
      with two(1) have "?m = 1" by linarith
      with that f10 m1 show False by auto
    qed
    have lt: "int ?m < nGenJets s" and eq: "int ?m = nGenJets s - 1"
      using two(1) by linarith+
    have g0: "iGenIndex ?t 0 = (if matchFlags K D F s ?m 0 = 3 then nGenJets s - 1 else -1)"
      using two by (simp add: final_iGenIndex)
    have g1: "iGenIndex ?t 1 = (if matchFlags K D F s ?m 1 = 3 then nGenJets s - 1 else -1)"
      using two by (simp add: final_iGenIndex)
    have "iRecIndex ?t 0 = -1" "iRecIndex ?t 1 = -1"
      using two r0 r1 by (simp_all add: final_iRecIndex)
    moreover have "iGenIndex ?t 0 = -1 \<or>
       (\<exists>g. 2 \<le> g \<and> int g < nGenJets s \<and> iGenIndex ?t 0 = int g \<and> matchFlags K D F s g 0 = 3)"
    proof (cases "matchFlags K D F s ?m 0 = 3")
      case True
      with third [of 0] lt eq g0 show ?thesis
        by (intro disjI2 exI [of _ ?m]) simp
    next
      case False
      with g0 show ?thesis by simp
    qed
    moreover have "iGenIndex ?t 1 = -1 \<or>
       (\<exists>g. 2 \<le> g \<and> int g < nGenJets s \<and> iGenIndex ?t 1 = int g \<and> matchFlags K D F s g 1 = 3)"
    proof (cases "matchFlags K D F s ?m 1 = 3")
      case True
      with third [of 1] lt eq g1 show ?thesis
        by (intro disjI2 exI [of _ ?m]) simp
    next
      case False
      with g1 show ?thesis by simp
    qed
    ultimately show ?thesis
      by blast
  qed
  show ?thesis
    unfolding run(3) using cells cross by blast
qed

theorem unflagged_never_paired_crossing_unmatched_witness:
  "nGenJets crossed \<le> int 50 \<and> nRecJets crossed \<le> int 50 \<and>
   2 \<le> nGenJets crossed \<and> 2 \<le> nRecJets crossed \<and>
   iRecIndex (forwardPass angularDistance binary32 (resetAll 50 crossed)) 0 = 1 \<and>
   iRecIndex (forwardPass angularDistance binary32 (resetAll 50 crossed)) 1 = 0 \<and>
   matchFlags 50 angularDistance binary32 crossed 0 1 = 1 \<and>
   matchFlags 50 angularDistance binary32 crossed 1 0 = 1 \<and>
   matchFlags 50 angularDistance binary32 crossed 2 2 = 3 \<and>
   (\<exists>s'. GetClosestJets 50 angularDistance binary32 crossed = Inr s' \<and>
      iRecIndex s' 0 = -1 \<and> iRecIndex s' 1 = -1 \<and> iGenIndex s' 0 = -1 \<and> iGenIndex s' 1 = -1 \<and>
      iRecIndex s' 2 = 2 \<and> iGenIndex s' 2 = 2) \<and>
   nGenJets crossedThird \<le> int 50 \<and> nRecJets crossedThird \<le> int 50 \<and>
   (\<exists>s'. GetClosestJets 50 angularDistance binary32 crossedThird = Inr s' \<and>
      iRecIndex s' 0 = -1 \<and> iRecIndex s' 1 = -1 \<and> iGenIndex s' 0 = 2 \<and> iGenIndex s' 1 = -1 \<and>
      matchFlags 50 angularDistance binary32 crossedThird 2 0 = 3)"
proof -
  have h: "nGenJets crossed \<le> int 50" "nRecJets crossed \<le> int 50"
    by (simp_all add: crossed_fields)
  have c: "2 \<le> nGenJets crossed" "2 \<le> nRecJets crossed"
    "iRecIndex (forwardPass angularDistance binary32 (resetAll 50 crossed)) 0 = 1"
    "iRecIndex (forwardPass angularDistance binary32 (resetAll 50 crossed)) 1 = 0"
    by (simp_all add: crossed_fields forwardPass_eq crossed_reset crossed_recChoice)
  have f: "matchFlags 50 angularDistance binary32 crossed 0 (Suc 0) = 1"
    "matchFlags 50 angularDistance binary32 crossed (Suc 0) 0 = 1"
    "matchFlags 50 angularDistance binary32 crossed 2 2 = 3"
    "matchFlags 50 angularDistance binary32 crossed 2 0 = 2"
    "matchFlags 50 angularDistance binary32 crossed 2 (Suc 0) = 2"
    by (simp_all add: matchFlags_eq crossed_fields crossed_recChoice crossed_genChoice)
  have n: "matchFlags 50 angularDistance binary32 crossed 0 1 \<noteq> 3"
    "matchFlags 50 angularDistance binary32 crossed 1 0 \<noteq> 3"
    using f(1,2) by simp_all
  from unflagged_never_paired_crossing_unmatched [of crossed 50 angularDistance binary32, OF h]
  obtain s' where s': "GetClosestJets 50 angularDistance binary32 crossed = Inr s'"
    and rec: "iRecIndex s' 0 = -1 \<and> iRecIndex s' 1 = -1"
    and g0: "iGenIndex s' 0 = -1 \<or>
        (\<exists>g. 2 \<le> g \<and> int g < nGenJets crossed \<and> iGenIndex s' 0 = int g \<and>
             matchFlags 50 angularDistance binary32 crossed g 0 = 3)"
    and g1: "iGenIndex s' 1 = -1 \<or>
        (\<exists>g. 2 \<le> g \<and> int g < nGenJets crossed \<and> iGenIndex s' 1 = int g \<and>
             matchFlags 50 angularDistance binary32 crossed g 1 = 3)"
    using c n by blast
  have only: "g = 2" if "2 \<le> g" "int g < nGenJets crossed" for g
    using that by (simp add: crossed_fields)
  have "matchFlags 50 angularDistance binary32 crossed g 0 \<noteq> 3"
    if "2 \<le> g" "int g < nGenJets crossed" for g
    using only [OF that] f(4) by simp
  with g0 have gen0: "iGenIndex s' 0 = -1"
    by blast
  have "matchFlags 50 angularDistance binary32 crossed g 1 \<noteq> 3"
    if "2 \<le> g" "int g < nGenJets crossed" for g
    using only [OF that] f(5) by simp
  with g1 have gen1: "iGenIndex s' 1 = -1"
    by blast
  have run: "GetClosestJets 50 angularDistance binary32 crossed =
      Inr (checkPass (backwardPass angularDistance binary32
             (forwardPass angularDistance binary32 (resetAll 50 crossed))))"
    by (rule GetClosestJets_run) (simp_all add: crossed_fields)
  have last: "iRecIndex s' 2 = 2 \<and> iGenIndex s' 2 = 2"
    using s' f(3) unfolding run by (auto simp add: final_iGenIndex final_iRecIndex crossed_fields)
  have first: "\<exists>s'. GetClosestJets 50 angularDistance binary32 crossed = Inr s' \<and>
      iRecIndex s' 0 = -1 \<and> iRecIndex s' 1 = -1 \<and> iGenIndex s' 0 = -1 \<and> iGenIndex s' 1 = -1 \<and>
      iRecIndex s' 2 = 2 \<and> iGenIndex s' 2 = 2"
    using s' rec gen0 gen1 last by blast
  have h3: "nGenJets crossedThird \<le> int 50" "nRecJets crossedThird \<le> int 50"
    by (simp_all add: crossedThird_fields)
  have c3: "2 \<le> nGenJets crossedThird" "2 \<le> nRecJets crossedThird"
    "iRecIndex (forwardPass angularDistance binary32 (resetAll 50 crossedThird)) 0 = 1"
    "iRecIndex (forwardPass angularDistance binary32 (resetAll 50 crossedThird)) 1 = 0"
    by (simp_all add: crossedThird_fields forwardPass_eq crossedThird_reset crossedThird_recChoice)
  have f3: "matchFlags 50 angularDistance binary32 crossedThird 0 (Suc 0) = 1"
    "matchFlags 50 angularDistance binary32 crossedThird (Suc 0) 0 = 1"
    "matchFlags 50 angularDistance binary32 crossedThird 2 0 = 3"
    "matchFlags 50 angularDistance binary32 crossedThird 2 (Suc 0) = 2"
    by (simp_all add: matchFlags_eq crossedThird_fields crossedThird_recChoice crossedThird_genChoice)
  have n3: "matchFlags 50 angularDistance binary32 crossedThird 0 1 \<noteq> 3"
    "matchFlags 50 angularDistance binary32 crossedThird 1 0 \<noteq> 3"
    using f3(1,2) by simp_all
  from unflagged_never_paired_crossing_unmatched [of crossedThird 50 angularDistance binary32, OF h3]
  obtain t' where t': "GetClosestJets 50 angularDistance binary32 crossedThird = Inr t'"
    and rec3: "iRecIndex t' 0 = -1 \<and> iRecIndex t' 1 = -1"
    and g13: "iGenIndex t' 1 = -1 \<or>
        (\<exists>g. 2 \<le> g \<and> int g < nGenJets crossedThird \<and> iGenIndex t' 1 = int g \<and>
             matchFlags 50 angularDistance binary32 crossedThird g 1 = 3)"
    using c3 n3 by blast
  have only3: "g = 2" if "2 \<le> g" "int g < nGenJets crossedThird" for g
    using that by (simp add: crossedThird_fields)
  have "matchFlags 50 angularDistance binary32 crossedThird g 1 \<noteq> 3"
    if "2 \<le> g" "int g < nGenJets crossedThird" for g
    using only3 [OF that] f3(4) by simp
  with g13 have gen13: "iGenIndex t' 1 = -1"
    by blast
  have run3: "GetClosestJets 50 angularDistance binary32 crossedThird =
      Inr (checkPass (backwardPass angularDistance binary32
             (forwardPass angularDistance binary32 (resetAll 50 crossedThird))))"
    by (rule GetClosestJets_run) (simp_all add: crossedThird_fields)
  have gen03: "iGenIndex t' 0 = 2"
    using t' f3(3) unfolding run3 by (auto simp add: final_iGenIndex crossedThird_fields)
  have second: "\<exists>s'. GetClosestJets 50 angularDistance binary32 crossedThird = Inr s' \<and>
      iRecIndex s' 0 = -1 \<and> iRecIndex s' 1 = -1 \<and> iGenIndex s' 0 = 2 \<and> iGenIndex s' 1 = -1 \<and>
      matchFlags 50 angularDistance binary32 crossedThird 2 0 = 3"
    using t' rec3 gen03 gen13 f3(3) by blast
  from h c f(1,2,3) first h3 second show ?thesis
    by simp
qed

text \<open>
  Claim C4 as stated fails. Three generated jets at \<open>\<eta> = 0, 1.5, 0.8125\<close> and two
  reconstructed jets at \<open>\<eta> = 0.875, 0.5\<close>: \<open>G0\<close> chooses \<open>R1\<close>, \<open>G1\<close> chooses \<open>R0\<close>,
  both reconstructed jets choose \<open>G2\<close>, the cells \<open>(0, 1)\<close> and \<open>(1, 0)\<close> have the flag
  1, and the result has \<open>iGenIndex[0] = 2\<close>.
\<close>

theorem crossed_jet_matched_to_third:
  "nGenJets crossedThird = 3 \<and> nRecJets crossedThird = 2 \<and>
   iRecIndex (forwardPass angularDistance binary32 (resetAll 50 crossedThird)) 0 = 1 \<and>
   iRecIndex (forwardPass angularDistance binary32 (resetAll 50 crossedThird)) 1 = 0 \<and>
   iGenIndex (backwardPass angularDistance binary32
     (forwardPass angularDistance binary32 (resetAll 50 crossedThird))) 0 = 2 \<and>
   iGenIndex (backwardPass angularDistance binary32
     (forwardPass angularDistance binary32 (resetAll 50 crossedThird))) 1 = 2 \<and>
   matchFlags 50 angularDistance binary32 crossedThird 0 1 = 1 \<and>
   matchFlags 50 angularDistance binary32 crossedThird 1 0 = 1 \<and>
   GetClosestJets 50 angularDistance binary32 crossedThird =
     Inr (checkPass (backwardPass angularDistance binary32
            (forwardPass angularDistance binary32 (resetAll 50 crossedThird)))) \<and>
   iGenIndex (checkPass (backwardPass angularDistance binary32
     (forwardPass angularDistance binary32 (resetAll 50 crossedThird)))) 0 = 2"
proof -
  have f: "matchFlags 50 angularDistance binary32 crossedThird 0 (Suc 0) = 1"
    "matchFlags 50 angularDistance binary32 crossedThird (Suc 0) 0 = 1"
    "matchFlags 50 angularDistance binary32 crossedThird 2 0 = 3"
    by (simp_all add: matchFlags_eq crossedThird_fields crossedThird_recChoice crossedThird_genChoice)
  have c: "iRecIndex (forwardPass angularDistance binary32 (resetAll 50 crossedThird)) 0 = 1"
    "iRecIndex (forwardPass angularDistance binary32 (resetAll 50 crossedThird)) (Suc 0) = 0"
    by (simp_all add: forwardPass_eq crossedThird_reset crossedThird_recChoice)
  have b: "iGenIndex (backwardPass angularDistance binary32
       (forwardPass angularDistance binary32 (resetAll 50 crossedThird))) 0 = 2"
    "iGenIndex (backwardPass angularDistance binary32
       (forwardPass angularDistance binary32 (resetAll 50 crossedThird))) (Suc 0) = 2"
    by (simp_all add: passes_iGenIndex crossedThird_fields crossedThird_genChoice)
  have run: "GetClosestJets 50 angularDistance binary32 crossedThird =
      Inr (checkPass (backwardPass angularDistance binary32
             (forwardPass angularDistance binary32 (resetAll 50 crossedThird))))"
    by (rule GetClosestJets_run) (simp_all add: crossedThird_fields)
  have g: "iGenIndex (checkPass (backwardPass angularDistance binary32
     (forwardPass angularDistance binary32 (resetAll 50 crossedThird)))) 0 = 2"
    using f(3) by (simp add: final_iGenIndex crossedThird_fields)
  from f c b run g show ?thesis
    by (simp add: crossedThird_fields)
qed

text \<open>
  Claim C5: when \<open>nGenJets = 0\<close> or \<open>nRecJets = 0\<close> the routine returns the frame as
  the first loop leaves it, with every one of the \<open>kMaxJets\<close> slots of both index arrays
  equal to \<open>-1\<close>. No pass is entered and no distance is computed: the result is the
  same for every distance and every narrowing.
\<close>

theorem empty_input_all_unmatched:
  assumes "nGenJets s = 0 \<or> nRecJets s = 0"
  shows "(\<forall>D F. GetClosestJets K D F s = Inr (resetAll K s)) \<and>
         (\<forall>i<K. iGenIndex (resetAll K s) i = -1 \<and> iRecIndex (resetAll K s) i = -1)"
  using assms by (simp add: GetClosestJets_early resetAll_eq)


theorem empty_input_all_unmatched_witness:
  "(nGenJets emptyRec = 0 \<or> nRecJets emptyRec = 0) \<and>
   iGenIndex emptyRec 0 = 7 \<and> iRecIndex emptyRec 49 = 7 \<and>
   (\<forall>D F. GetClosestJets 50 D F emptyRec = Inr (resetAll 50 emptyRec)) \<and>
   iGenIndex (resetAll 50 emptyRec) 0 = -1 \<and> iRecIndex (resetAll 50 emptyRec) 0 = -1 \<and>
   iGenIndex (resetAll 50 emptyRec) 49 = -1 \<and> iRecIndex (resetAll 50 emptyRec) 49 = -1"
proof -
  have h: "nGenJets emptyRec = 0 \<or> nRecJets emptyRec = 0"
    by (simp add: emptyRec_def callFrame_def)
  have p: "iGenIndex emptyRec 0 = 7" "iRecIndex emptyRec 49 = 7"
    by (simp_all add: emptyRec_def callFrame_def)
  from empty_input_all_unmatched [of emptyRec 50, OF h] h p show ?thesis
    by simp
qed

text \<open>
  Claim C7: the first loop sets all \<open>kMaxJets\<close> slots of both index arrays to \<open>-1\<close>,
  whatever they held before, and in the result every slot of \<open>iGenIndex\<close> at an index
  of at least \<open>nRecJets\<close> and every slot of \<open>iRecIndex\<close> at an index of at least
  \<open>nGenJets\<close> is \<open>-1\<close>.
\<close>

theorem slots_beyond_counts_unmatched:
  assumes "nGenJets s \<le> int K" "nRecJets s \<le> int K"
  shows "(\<forall>i<K. iGenIndex (resetAll K s) i = -1 \<and> iRecIndex (resetAll K s) i = -1) \<and>
         (\<exists>s'. GetClosestJets K D F s = Inr s' \<and>
            (\<forall>i<K. nRecJets s \<le> int i \<longrightarrow> iGenIndex s' i = -1) \<and>
            (\<forall>i<K. nGenJets s \<le> int i \<longrightarrow> iRecIndex s' i = -1))"
proof
  show "\<forall>i<K. iGenIndex (resetAll K s) i = -1 \<and> iRecIndex (resetAll K s) i = -1"
    by (simp add: resetAll_eq)
  from assms show "\<exists>s'. GetClosestJets K D F s = Inr s' \<and>
            (\<forall>i<K. nRecJets s \<le> int i \<longrightarrow> iGenIndex s' i = -1) \<and>
            (\<forall>i<K. nGenJets s \<le> int i \<longrightarrow> iRecIndex s' i = -1)"
  proof (cases rule: GetClosestJets_cases [where D = D and F = F])
    case early
    then show ?thesis by (simp add: resetAll_eq)
  next
    case run
    then show ?thesis by (simp add: final_iGenIndex final_iRecIndex)
  qed
qed

theorem slots_beyond_counts_unmatched_witness:
  "nGenJets oneGenTwoRec \<le> int 50 \<and> nRecJets oneGenTwoRec \<le> int 50 \<and>
   iGenIndex oneGenTwoRec 9 = 7 \<and> iRecIndex oneGenTwoRec 9 = 7 \<and>
   iGenIndex (resetAll 50 oneGenTwoRec) 9 = -1 \<and> iRecIndex (resetAll 50 oneGenTwoRec) 9 = -1 \<and>
   (\<exists>s'. GetClosestJets 50 angularDistance binary32 oneGenTwoRec = Inr s' \<and>
      iGenIndex s' 2 = -1 \<and> iGenIndex s' 49 = -1 \<and> iRecIndex s' 1 = -1 \<and> iRecIndex s' 49 = -1)"
proof -
  have h: "nGenJets oneGenTwoRec \<le> int 50" "nRecJets oneGenTwoRec \<le> int 50"
    by (simp_all add: oneGenTwoRec_def callFrame_def)
  have p: "iGenIndex oneGenTwoRec 9 = 7" "iRecIndex oneGenTwoRec 9 = 7"
    "nGenJets oneGenTwoRec = 1" "nRecJets oneGenTwoRec = 2"
    by (simp_all add: oneGenTwoRec_def callFrame_def)
  from slots_beyond_counts_unmatched [of oneGenTwoRec 50 angularDistance binary32, OF h] h p
  show ?thesis
    by auto
qed

text \<open>
  Claim C8: the routine leaves the two jet arrays and the two counts as they were; it
  writes the two index arrays and its local flag matrix only, and the index arrays only
  below \<open>kMaxJets\<close>.
\<close>

theorem inputs_unchanged:
  assumes "nGenJets s \<le> int K" "nRecJets s \<le> int K"
  shows "\<exists>s'. GetClosestJets K D F s = Inr s' \<and>
           genJets s' = genJets s \<and> recJets s' = recJets s \<and>
           nGenJets s' = nGenJets s \<and> nRecJets s' = nRecJets s \<and>
           (\<forall>i. K \<le> i \<longrightarrow> iGenIndex s' i = iGenIndex s i \<and> iRecIndex s' i = iRecIndex s i)"
  using assms
proof (cases rule: GetClosestJets_cases [where D = D and F = F])
  case early
  then show ?thesis by (simp add: resetAll_eq)
next
  case run
  have "\<forall>i. K \<le> i \<longrightarrow> \<not> int i < nGenJets s \<and> \<not> int i < nRecJets s"
    using assms by auto
  then show ?thesis
    unfolding run(3) by (simp add: final_iGenIndex final_iRecIndex checkPass_frame passes_frame)
qed

theorem inputs_unchanged_witness:
  "nGenJets crossed \<le> int 50 \<and> nRecJets crossed \<le> int 50 \<and>
   (\<exists>s'. GetClosestJets 50 angularDistance binary32 crossed = Inr s' \<and>
      genJets s' = genJets crossed \<and> recJets s' = recJets crossed \<and>
      nGenJets s' = nGenJets crossed \<and> nRecJets s' = nRecJets crossed \<and>
      (\<forall>i. 50 \<le> i \<longrightarrow> iGenIndex s' i = iGenIndex crossed i \<and> iRecIndex s' i = iRecIndex crossed i))"
proof -
  have h: "nGenJets crossed \<le> int 50" "nRecJets crossed \<le> int 50"
    by (simp_all add: crossed_fields)
  from inputs_unchanged [of crossed 50 angularDistance binary32, OF h] h show ?thesis
    by blast
qed

text \<open>
  Claim C9: in the result every entry of \<open>iGenIndex\<close> other than \<open>-1\<close> lies in
  \<open>[0, nGenJets)\<close> and every entry of \<open>iRecIndex\<close> other than \<open>-1\<close> lies in
  \<open>[0, nRecJets)\<close>, and no index other than \<open>-1\<close> appears in two slots of the same
  array.
\<close>

theorem outputs_in_range_injective:
  assumes "nGenJets s \<le> int K" "nRecJets s \<le> int K"
  shows "\<exists>s'. GetClosestJets K D F s = Inr s' \<and>
           (\<forall>i<K. iGenIndex s' i \<noteq> -1 \<longrightarrow> 0 \<le> iGenIndex s' i \<and> iGenIndex s' i < nGenJets s) \<and>
           (\<forall>i<K. iRecIndex s' i \<noteq> -1 \<longrightarrow> 0 \<le> iRecIndex s' i \<and> iRecIndex s' i < nRecJets s) \<and>
           (\<forall>i<K. \<forall>j<K. iGenIndex s' i \<noteq> -1 \<and> iGenIndex s' i = iGenIndex s' j \<longrightarrow> i = j) \<and>
           (\<forall>i<K. \<forall>j<K. iRecIndex s' i \<noteq> -1 \<and> iRecIndex s' i = iRecIndex s' j \<longrightarrow> i = j)"
  using assms
proof (cases rule: GetClosestJets_cases [where D = D and F = F])
  case early
  then show ?thesis by (simp add: resetAll_eq)
next
  case run
  let ?t = "checkPass (backwardPass D F (forwardPass D F (resetAll K s)))"
  let ?m = "nat (nGenJets s) - 1" and ?n = "nat (nRecJets s) - 1"
  have gen: "iGenIndex ?t i = (if 0 < nGenJets s \<and> int i < nRecJets s \<and> matchFlags K D F s ?m i = 3
                               then nGenJets s - 1 else -1)" if "i < K" for i
    using that assms genChoice_none [of s i K D F] by (auto simp add: final_iGenIndex)
  have rec: "iRecIndex ?t i = (if int i < nGenJets s \<and> 0 < nRecJets s \<and> matchFlags K D F s i ?n = 3
                               then nRecJets s - 1 else -1)" if "i < K" for i
    using that assms recChoice_none [of s i K D F] by (auto simp add: final_iRecIndex)
  have ginj: "i = j" if "i < K" "j < K" "iGenIndex ?t i \<noteq> -1" "iGenIndex ?t i = iGenIndex ?t j" for i j
  proof -
    from that have pos: "0 < nGenJets s" and fi: "matchFlags K D F s ?m i = 3"
      and fj: "matchFlags K D F s ?m j = 3"
      by (auto simp add: gen split: if_splits)
    from pos assms have "?m < K" by linarith
    from matchFlags_3 [OF this that(1) fi] matchFlags_3 [OF this that(2) fj]
    show ?thesis by simp
  qed
  have rinj: "i = j" if "i < K" "j < K" "iRecIndex ?t i \<noteq> -1" "iRecIndex ?t i = iRecIndex ?t j" for i j
  proof -
    from that have pos: "0 < nRecJets s" and fi: "matchFlags K D F s i ?n = 3"
      and fj: "matchFlags K D F s j ?n = 3"
      by (auto simp add: rec split: if_splits)
    from pos assms have "?n < K" by linarith
    from matchFlags_3 [OF that(1) this fi] matchFlags_3 [OF that(2) this fj]
    show ?thesis by simp
  qed
  have "(\<forall>i<K. iGenIndex ?t i \<noteq> -1 \<longrightarrow> 0 \<le> iGenIndex ?t i \<and> iGenIndex ?t i < nGenJets s)"
    by (simp add: gen)
  moreover have "(\<forall>i<K. iRecIndex ?t i \<noteq> -1 \<longrightarrow> 0 \<le> iRecIndex ?t i \<and> iRecIndex ?t i < nRecJets s)"
    by (simp add: rec)
  moreover have "(\<forall>i<K. \<forall>j<K. iGenIndex ?t i \<noteq> -1 \<and> iGenIndex ?t i = iGenIndex ?t j \<longrightarrow> i = j)"
    using ginj by blast
  moreover have "(\<forall>i<K. \<forall>j<K. iRecIndex ?t i \<noteq> -1 \<and> iRecIndex ?t i = iRecIndex ?t j \<longrightarrow> i = j)"
    using rinj by blast
  ultimately show ?thesis
    unfolding run(3) by blast
qed

theorem outputs_in_range_injective_witness:
  "nGenJets twoGenOneRec \<le> int 50 \<and> nRecJets twoGenOneRec \<le> int 50 \<and>
   (\<exists>s'. GetClosestJets 50 angularDistance binary32 twoGenOneRec = Inr s' \<and>
      (\<forall>i<50. iGenIndex s' i \<noteq> -1 \<longrightarrow> 0 \<le> iGenIndex s' i \<and> iGenIndex s' i < nGenJets twoGenOneRec) \<and>
      (\<forall>i<50. iRecIndex s' i \<noteq> -1 \<longrightarrow> 0 \<le> iRecIndex s' i \<and> iRecIndex s' i < nRecJets twoGenOneRec) \<and>
      (\<forall>i<50. \<forall>j<50. iGenIndex s' i \<noteq> -1 \<and> iGenIndex s' i = iGenIndex s' j \<longrightarrow> i = j) \<and>
      (\<forall>i<50. \<forall>j<50. iRecIndex s' i \<noteq> -1 \<and> iRecIndex s' i = iRecIndex s' j \<longrightarrow> i = j))"
proof -
  have h: "nGenJets twoGenOneRec \<le> int 50" "nRecJets twoGenOneRec \<le> int 50"
    by (simp_all add: twoGenOneRec_def callFrame_def)
  from outputs_in_range_injective [of twoGenOneRec 50 angularDistance binary32, OF h] h
  show ?thesis
    by blast
qed




section \<open>The claim about AliHFAODMCParticleContainer\<close>

text \<open>
  Claim C10: in a container whose \<open>fSpecialPDG\<close> is 0, \<open>IsSpecialPDGDaughter\<close> returns
  true for every particle, and \<open>AcceptMCParticle(Int_t i)\<close> returns false with the
  rejection reason \<open>kHFCut\<close> for every index at which the array holds a particle.
\<close>

theorem no_particle_accepted_without_special_pdg:
  assumes "fSpecialPDG c = 0"
  shows "(\<forall>part. IsSpecialPDGDaughter c part = Some (Inr True)) \<and>
         (\<forall>i part. fClArray c i = Some part \<longrightarrow>
            AcceptMCParticle h c i = Some (Inr (False, kHFCut h)))"
  using assms by (simp add: IsSpecialPDGDaughter_def AcceptMCParticle_def Let_def)

theorem no_particle_accepted_without_special_pdg_witness:
  "fSpecialPDG plainContainer = 0 \<and>
   IsSpecialPDGDaughter plainContainer (the (plainArray 1)) = Some (Inr True) \<and>
   AcceptMCParticle plainHost plainContainer 0 = Some (Inr (False, 32)) \<and>
   AcceptMCParticle plainHost plainContainer 1 = Some (Inr (False, 32))"
proof -
  have h: "fSpecialPDG plainContainer = 0"
    by (simp add: plainContainer_def)
  have a: "fClArray plainContainer 0 = Some \<lparr>PdgCode = 421, IsPrimary = True, GetMother = -1, GetGeneratorIndex = 0\<rparr>"
    "fClArray plainContainer 1 = Some \<lparr>PdgCode = -321, IsPrimary = False, GetMother = 0, GetGeneratorIndex = 0\<rparr>"
    by (simp_all add: plainContainer_def plainArray_def)
  have k: "kHFCut plainHost = 32"
    by (simp add: plainHost_def)
  from no_particle_accepted_without_special_pdg [of plainContainer plainHost, OF h] h a k
  show ?thesis
    by simp
qed

end
